theory Spec2Isabelle
  imports
    Main
    "HOL-Library.Word"
    "HOL-Library.Sublist"
    "HOL-Library.Char_ord"
    "HOL-Library.List_Lexorder"
begin

unbundle bit_operations_syntax

section \<open>Exceptions\<close>

text \<open>
  The exceptions that the script and the library calls it makes can raise. A function
  that can raise returns \<open>error + 'a\<close>, with \<open>Inl\<close> for the raised exception.
  \<open>PathTraversal name\<close> is the plain \<open>Exception("Blocked path traversal attempt: name")\<close>
  of \<open>extract_tar_xz\<close>; \<open>TarReadError\<close> is \<open>tarfile.ReadError\<close>.
\<close>

datatype error =
    ValueError
  | IndexError
  | FileNotFoundError
  | FileExistsError
  | IsADirectoryError
  | NotADirectoryError
  | LZMAError
  | TarReadError
  | PathTraversal string

section \<open>hashlib.sha256\<close>

text \<open>
  SHA-256 as in FIPS 180-4, on bytes. The round constants are the first 32 bits of the
  fractional parts of the cube roots of the first 64 primes, the initial state those of
  the square roots of the first 8 primes; both are written in decimal. A
  \<open>hashlib.sha256()\<close> object is modelled by the bytes it has absorbed: \<open>update\<close>
  appends, \<open>hexdigest\<close> hashes what was absorbed and prints the eight state words in
  lowercase hexadecimal.
\<close>

type_synonym byte = "8 word"
type_synonym u32 = "32 word"

definition rotr :: "nat \<Rightarrow> u32 \<Rightarrow> u32" where
  "rotr n x = (drop_bit n x) OR (push_bit (32 - n) x)"

definition Ch :: "u32 \<Rightarrow> u32 \<Rightarrow> u32 \<Rightarrow> u32" where
  "Ch x y z = (x AND y) XOR (NOT x AND z)"

definition Maj :: "u32 \<Rightarrow> u32 \<Rightarrow> u32 \<Rightarrow> u32" where
  "Maj x y z = (x AND y) XOR (x AND z) XOR (y AND z)"

definition Sigma0 :: "u32 \<Rightarrow> u32" where
  "Sigma0 x = rotr 2 x XOR rotr 13 x XOR rotr 22 x"

definition Sigma1 :: "u32 \<Rightarrow> u32" where
  "Sigma1 x = rotr 6 x XOR rotr 11 x XOR rotr 25 x"

definition sigma0 :: "u32 \<Rightarrow> u32" where
  "sigma0 x = rotr 7 x XOR rotr 18 x XOR drop_bit 3 x"

definition sigma1 :: "u32 \<Rightarrow> u32" where
  "sigma1 x = rotr 17 x XOR rotr 19 x XOR drop_bit 10 x"

definition sha256_K :: "u32 list" where
  "sha256_K =
    [1116352408, 1899447441, 3049323471, 3921009573, 961987163, 1508970993,
     2453635748, 2870763221, 3624381080, 310598401, 607225278, 1426881987,
     1925078388, 2162078206, 2614888103, 3248222580, 3835390401, 4022224774,
     264347078, 604807628, 770255983, 1249150122, 1555081692, 1996064986,
     2554220882, 2821834349, 2952996808, 3210313671, 3336571891, 3584528711,
     113926993, 338241895, 666307205, 773529912, 1294757372, 1396182291,
     1695183700, 1986661051, 2177026350, 2456956037, 2730485921, 2820302411,
     3259730800, 3345764771, 3516065817, 3600352804, 4094571909, 275423344,
     430227734, 506948616, 659060556, 883997877, 958139571, 1322822218,
     1537002063, 1747873779, 1955562222, 2024104815, 2227730452, 2361852424,
     2428436474, 2756734187, 3204031479, 3329325298]"

datatype regs = Regs u32 u32 u32 u32 u32 u32 u32 u32

definition sha256_init :: regs where
  "sha256_init = Regs 1779033703 3144134277 1013904242 2773480762
                      1359893119 2600822924 528734635 1541459225"

fun sha256_round :: "regs \<Rightarrow> u32 \<times> u32 \<Rightarrow> regs" where
  "sha256_round (Regs a b c d e f g h) (k, w) =
     (let t1 = h + Sigma1 e + Ch e f g + k + w;
          t2 = Sigma0 a + Maj a b c
      in Regs (t1 + t2) a b c (d + t1) e f g)"

fun regs_add :: "regs \<Rightarrow> regs \<Rightarrow> regs" where
  "regs_add (Regs a b c d e f g h) (Regs a' b' c' d' e' f' g' h') =
     Regs (a + a') (b + b') (c + c') (d + d') (e + e') (f + f') (g + g') (h + h')"

fun be_words :: "byte list \<Rightarrow> u32 list" where
  "be_words (b0 # b1 # b2 # b3 # bs) =
     (push_bit 24 (ucast b0) OR push_bit 16 (ucast b1) OR push_bit 8 (ucast b2) OR ucast b3)
       # be_words bs"
| "be_words _ = []"

fun schedule :: "nat \<Rightarrow> u32 list \<Rightarrow> u32 list" where
  "schedule 0 w = w"
| "schedule (Suc n) w =
     (let t = length w
      in schedule n
           (w @ [sigma1 (w ! (t - 2)) + w ! (t - 7) + sigma0 (w ! (t - 15)) + w ! (t - 16)]))"

definition sha256_block :: "regs \<Rightarrow> byte list \<Rightarrow> regs" where
  "sha256_block hs blk =
     regs_add hs (foldl sha256_round hs (zip sha256_K (schedule 48 (be_words blk))))"

definition be64 :: "64 word \<Rightarrow> byte list" where
  "be64 n = map (\<lambda>i. ucast (drop_bit (8 * (7 - i)) n)) [0..<8]"

definition sha256_pad :: "byte list \<Rightarrow> byte list" where
  "sha256_pad m =
     m @ [0x80] @ replicate ((119 - length m mod 64) mod 64) 0 @ be64 (of_nat (8 * length m))"

definition blocks64 :: "byte list \<Rightarrow> byte list list" where
  "blocks64 p = map (\<lambda>i. take 64 (drop (64 * i) p)) [0..<length p div 64]"

definition sha256_regs :: "byte list \<Rightarrow> regs" where
  "sha256_regs m = foldl sha256_block sha256_init (blocks64 (sha256_pad m))"

definition hex_digit :: "u32 \<Rightarrow> char" where
  "hex_digit n = ''0123456789abcdef'' ! unat (n AND 0xf)"

definition hex_word :: "u32 \<Rightarrow> string" where
  "hex_word w = map (\<lambda>i. hex_digit (drop_bit (4 * (7 - i)) w)) [0..<8]"

fun hex_regs :: "regs \<Rightarrow> string" where
  "hex_regs (Regs a b c d e f g h) =
     hex_word a @ hex_word b @ hex_word c @ hex_word d @
     hex_word e @ hex_word f @ hex_word g @ hex_word h"

definition sha256_hex :: "byte list \<Rightarrow> string" where
  "sha256_hex m = hex_regs (sha256_regs m)"

type_synonym hasher = "byte list"

definition sha256_new :: hasher where
  "sha256_new = []"

definition update :: "hasher \<Rightarrow> byte list \<Rightarrow> hasher" where
  "update h b = h @ b"

definition hexdigest :: "hasher \<Rightarrow> string" where
  "hexdigest h = sha256_hex h"

section \<open>The file system\<close>

text \<open>
  Paths are absolute: a path is the list of its components below the root, so \<open>[]\<close> is
  the root directory. The file system maps paths to nodes; it is kept as an association
  list (the first entry for a path is the current one) so that a directory can be listed.
  Symbolic links, permissions and special files are not part of the model.
\<close>

type_synonym path = "string list"

datatype node = Dir | File "byte list"

type_synonym fs = "(path \<times> node) list"

definition node_at :: "fs \<Rightarrow> path \<Rightarrow> node option" where
  "node_at fs p = (if p = [] then Some Dir else map_of fs p)"

definition is_dir :: "fs \<Rightarrow> path \<Rightarrow> bool" where
  "is_dir fs p = (node_at fs p = Some Dir)"

definition exists_path :: "fs \<Rightarrow> path \<Rightarrow> bool" where
  "exists_path fs p = (node_at fs p \<noteq> None)"

definition put :: "fs \<Rightarrow> path \<Rightarrow> node \<Rightarrow> fs" where
  "put fs p n = (p, n) # fs"

text \<open>\<open>open(path, "rb")\<close>: the bytes of a regular file, or the exception raised.\<close>

definition open_rb :: "fs \<Rightarrow> path \<Rightarrow> error + byte list" where
  "open_rb fs p =
     (case node_at fs p of
        None \<Rightarrow> Inl FileNotFoundError
      | Some Dir \<Rightarrow> Inl IsADirectoryError
      | Some (File bs) \<Rightarrow> Inr bs)"

text \<open>
  \<open>f.read(n)\<close> on a binary file whose unread bytes are \<open>rest\<close>: the bytes returned and
  the bytes left. \<open>n = -1\<close> reads to the end, a smaller \<open>n\<close> raises \<open>ValueError\<close>.
\<close>

definition file_read :: "int \<Rightarrow> byte list \<Rightarrow> error + (byte list \<times> byte list)" where
  "file_read n rest =
     (if n < - 1 then Inl ValueError
      else if n = - 1 then Inr (rest, [])
      else Inr (take (nat n) rest, drop (nat n) rest))"

section \<open>sha256_file\<close>

text \<open>
  The \<open>while True\<close> loop of \<open>sha256_file\<close>: read a chunk, stop when it is empty,
  otherwise feed it to the hasher and go on.
\<close>

function sha256_loop :: "int \<Rightarrow> byte list \<Rightarrow> hasher \<Rightarrow> error + hasher" where
  "sha256_loop bufsize rest h =
     (case file_read bufsize rest of
        Inl e \<Rightarrow> Inl e
      | Inr (b, rest') \<Rightarrow>
          if b = [] then Inr h else sha256_loop bufsize rest' (update h b))"
  by pat_completeness auto
termination
  by (relation "measure (\<lambda>(bufsize, rest, h). length rest)")
     (auto simp: file_read_def split: if_splits)

declare sha256_loop.simps [simp del]

definition sha256_file :: "fs \<Rightarrow> path \<Rightarrow> int \<Rightarrow> error + string" where
  "sha256_file fs p bufsize =
     (case open_rb fs p of
        Inl e \<Rightarrow> Inl e
      | Inr bs \<Rightarrow>
          (case sha256_loop bufsize bs sha256_new of
             Inl e \<Rightarrow> Inl e
           | Inr h \<Rightarrow> Inr (hexdigest h)))"

section \<open>Library decoders\<close>

text \<open>
  What the libraries make of a file's bytes is a parameter of the model: \<open>decode_text\<close>
  is the decoding done by \<open>Path.read_text(errors="ignore")\<close>; \<open>tar_open\<close> is what
  \<open>tarfile.open(mode="r:xz")\<close> followed by \<open>getmembers()\<close> yields, the members or the
  exception raised (\<open>TarReadError\<close> when the content is not a tar stream); \<open>xz_read\<close> is
  what reading an \<open>lzma.open\<close> stream yields, all the decompressed bytes or the bytes
  delivered before \<open>LZMAError\<close> is raised. Every theorem holds for every such decoder.
  Archive members are regular files and directories.
\<close>

datatype member_kind = Regular "byte list" | Directory

datatype member = Member (mname: string) (mkind: member_kind)

datatype tar_result =
    TarRaises error
  | TarMembers "member list"

datatype xz_result =
    XzData "byte list"
  | XzCorrupt "byte list"

record codec =
  decode_text :: "byte list \<Rightarrow> string"
  tar_open :: "byte list \<Rightarrow> tar_result"
  xz_read :: "byte list \<Rightarrow> xz_result"

section \<open>Strings\<close>

text \<open>
  Text is a list of characters with code points below 256. \<open>isspace\<close> and
  \<open>islinebreak\<close> are Python's whitespace and line boundary characters in that range,
  \<open>lower_char\<close> is \<open>str.lower\<close> on one character.
\<close>

definition isspace :: "char \<Rightarrow> bool" where
  "isspace c = ((of_char c :: nat) \<in> {9, 10, 11, 12, 13, 28, 29, 30, 31, 32, 133, 160})"

definition islinebreak :: "char \<Rightarrow> bool" where
  "islinebreak c = ((of_char c :: nat) \<in> {10, 11, 12, 13, 28, 29, 30, 133})"

definition lower_char :: "char \<Rightarrow> char" where
  "lower_char c =
     (let n = (of_char c :: nat)
      in if (65 \<le> n \<and> n \<le> 90) \<or> (192 \<le> n \<and> n \<le> 222 \<and> n \<noteq> 215)
         then char_of (n + 32) else c)"

definition lower :: "string \<Rightarrow> string" where
  "lower s = map lower_char s"

definition strip :: "string \<Rightarrow> string" where
  "strip s = rev (dropWhile isspace (rev (dropWhile isspace s)))"

definition startswith :: "string \<Rightarrow> string \<Rightarrow> bool" where
  "startswith s pre = (take (length pre) s = pre)"

definition endswith :: "string \<Rightarrow> string \<Rightarrow> bool" where
  "endswith s suf = (length suf \<le> length s \<and> drop (length s - length suf) s = suf)"

text \<open>\<open>str.splitlines()\<close>: a carriage return followed by a line feed is one boundary.\<close>

function splitlines :: "string \<Rightarrow> string list" where
  "splitlines s =
     (if s = [] then []
      else takeWhile (\<lambda>c. \<not> islinebreak c) s #
        (case dropWhile (\<lambda>c. \<not> islinebreak c) s of
           [] \<Rightarrow> []
         | b # rest \<Rightarrow>
             (case rest of
                [] \<Rightarrow> []
              | d # rest' \<Rightarrow>
                  if b = CHR 0x0D \<and> d = CHR 0x0A then splitlines rest'
                  else splitlines rest)))"
  by pat_completeness auto
termination
proof (relation "measure length")
  show "wf (measure length)" by simp
next
  fix s :: string and b rest d rest'
  assume "dropWhile (\<lambda>c. \<not> islinebreak c) s = b # rest" and "rest = d # rest'"
  then have "length (dropWhile (\<lambda>c. \<not> islinebreak c) s) = Suc (Suc (length rest'))"
    by simp
  moreover have "length (dropWhile (\<lambda>c. \<not> islinebreak c) s) \<le> length s"
    by (rule length_dropWhile_le)
  ultimately show "(rest', s) \<in> measure length"
    by simp
next
  fix s :: string and b rest d rest'
  assume "dropWhile (\<lambda>c. \<not> islinebreak c) s = b # rest"
  then have "length (dropWhile (\<lambda>c. \<not> islinebreak c) s) = Suc (length rest)"
    by simp
  moreover have "length (dropWhile (\<lambda>c. \<not> islinebreak c) s) \<le> length s"
    by (rule length_dropWhile_le)
  ultimately show "(rest, s) \<in> measure length"
    by simp
qed

declare splitlines.simps [simp del]

text \<open>\<open>str.split()\<close> without arguments: the maximal runs of non-whitespace.\<close>

function split_ws :: "string \<Rightarrow> string list" where
  "split_ws s =
     (case dropWhile isspace s of
        [] \<Rightarrow> []
      | c # cs \<Rightarrow>
          (c # takeWhile (\<lambda>x. \<not> isspace x) cs) # split_ws (dropWhile (\<lambda>x. \<not> isspace x) cs))"
  by pat_completeness auto
termination
proof (relation "measure length")
  show "wf (measure length)" by simp
next
  fix s :: string and c cs
  assume "dropWhile isspace s = c # cs"
  then have "length (dropWhile isspace s) = Suc (length cs)"
    by simp
  moreover have "length (dropWhile isspace s) \<le> length s"
    by (rule length_dropWhile_le)
  moreover have "length (dropWhile (\<lambda>x. \<not> isspace x) cs) \<le> length cs"
    by (rule length_dropWhile_le)
  ultimately show "(dropWhile (\<lambda>x. \<not> isspace x) cs, s) \<in> measure length"
    by simp
qed

declare split_ws.simps [simp del]

section \<open>read_expected_sha256\<close>

definition is_hex_char :: "char \<Rightarrow> bool" where
  "is_hex_char c = (lower_char c \<in> set ''0123456789abcdef'')"

text \<open>
  The body of the \<open>try\<close> block: \<open>Inl\<close> is an exception raised inside it
  (\<open>read_text\<close> on a missing file or a directory, an index out of range).
\<close>

definition read_expected_body :: "codec \<Rightarrow> fs \<Rightarrow> path \<Rightarrow> error + string option" where
  "read_expected_body cd fs sha256_path =
     (case open_rb fs sha256_path of
        Inl e \<Rightarrow> Inl e
      | Inr bs \<Rightarrow>
          (let text = strip (decode_text cd bs)
           in if text = [] then Inr None
              else
                (case splitlines text of
                   [] \<Rightarrow> Inl IndexError
                 | l # _ \<Rightarrow>
                     (let first_line = strip l
                      in case split_ws first_line of
                           [] \<Rightarrow> Inl IndexError
                         | t # _ \<Rightarrow>
                             (let token = strip t;
                                  token = filter is_hex_char token
                              in Inr (if length token = 64 then Some token else None))))))"

text \<open>The \<open>except Exception\<close> handler turns every exception into \<open>None\<close>.\<close>

definition read_expected_sha256 :: "codec \<Rightarrow> fs \<Rightarrow> path \<Rightarrow> string option" where
  "read_expected_sha256 cd fs sha256_path =
     (case read_expected_body cd fs sha256_path of
        Inl e \<Rightarrow> None
      | Inr r \<Rightarrow> r)"

section \<open>Paths\<close>

text \<open>
  \<open>parts\<close> are the components pathlib keeps of a string: empty components and \<open>.\<close>
  are dropped, \<open>..\<close> is kept. \<open>joinpath d name\<close> is \<open>d / name\<close> for an absolute
  directory \<open>d\<close>: an absolute \<open>name\<close> replaces \<open>d\<close>. \<open>resolve\<close> removes the \<open>..\<close>
  components as \<open>Path.resolve()\<close> does when no component is a symbolic link (\<open>..\<close> at
  the root stays at the root). \<open>str_path\<close> is \<open>str\<close> of an absolute path on POSIX.
\<close>

fun split_sep :: "string \<Rightarrow> string list" where
  "split_sep [] = [[]]"
| "split_sep (c # cs) =
     (if c = CHR ''/'' then [] # split_sep cs
      else (case split_sep cs of
              [] \<Rightarrow> [[c]]
            | w # ws \<Rightarrow> (c # w) # ws))"

definition parts :: "string \<Rightarrow> string list" where
  "parts name = filter (\<lambda>c. c \<noteq> [] \<and> c \<noteq> ''.'') (split_sep name)"

definition is_absolute :: "string \<Rightarrow> bool" where
  "is_absolute name = (case name of [] \<Rightarrow> False | c # _ \<Rightarrow> c = CHR ''/'')"

definition joinpath :: "path \<Rightarrow> string \<Rightarrow> string list" where
  "joinpath d name = (if is_absolute name then parts name else d @ parts name)"

definition resolve :: "string list \<Rightarrow> path" where
  "resolve p = foldl (\<lambda>acc c. if c = ''..'' then butlast acc else acc @ [c]) [] p"

definition str_path :: "path \<Rightarrow> string" where
  "str_path p = (if p = [] then ''/'' else concat (map (\<lambda>c. CHR ''/'' # c) p))"

definition os_sep :: string where
  "os_sep = ''/''"

definition name_of :: "path \<Rightarrow> string" where
  "name_of p = (if p = [] then [] else last p)"

section \<open>Creating directories and files\<close>

text \<open>
  \<open>mkdir_p\<close> is \<open>Path.mkdir(parents=True, exist_ok=True)\<close>: it walks down from the
  root (\<open>mkdirs fs done todo\<close>), passes existing directories, creates missing ones and
  raises when a regular file is in the way, in which case nothing has been created.
\<close>

fun mkdirs :: "fs \<Rightarrow> path \<Rightarrow> string list \<Rightarrow> error + fs" where
  "mkdirs fs pre [] = Inr fs"
| "mkdirs fs pre (c # cs) =
     (case node_at fs (pre @ [c]) of
        Some Dir \<Rightarrow> mkdirs fs (pre @ [c]) cs
      | Some (File _) \<Rightarrow> Inl (if cs = [] then FileExistsError else NotADirectoryError)
      | None \<Rightarrow> mkdirs (put fs (pre @ [c]) Dir) (pre @ [c]) cs)"

definition mkdir_p :: "fs \<Rightarrow> path \<Rightarrow> error + fs" where
  "mkdir_p fs p = mkdirs fs [] p"

text \<open>
  \<open>open(path, "wb")\<close> creates the file or empties it; it raises on a directory and when
  the parent is not a directory. \<open>append_file\<close> is \<open>write\<close> on the file so opened.
\<close>

definition open_wb :: "fs \<Rightarrow> path \<Rightarrow> error + fs" where
  "open_wb fs p =
     (case node_at fs p of
        Some Dir \<Rightarrow> Inl IsADirectoryError
      | _ \<Rightarrow>
          (case node_at fs (butlast p) of
             Some Dir \<Rightarrow> Inr (put fs p (File []))
           | Some (File _) \<Rightarrow> Inl NotADirectoryError
           | None \<Rightarrow> Inl FileNotFoundError))"

definition append_file :: "fs \<Rightarrow> path \<Rightarrow> byte list \<Rightarrow> fs" where
  "append_file fs p chunk =
     (case node_at fs p of
        Some (File old) \<Rightarrow> put fs p (File (old @ chunk))
      | _ \<Rightarrow> fs)"

section \<open>tarfile.extractall\<close>

text \<open>
  Members are extracted in order, each below the destination; a regular member gets its
  missing parent directories. The first operating-system error stops the extraction and
  is raised, with the members extracted so far left in place.
\<close>

definition extract_member :: "fs \<Rightarrow> path \<Rightarrow> member \<Rightarrow> fs \<times> error option" where
  "extract_member fs dest m =
     (let target = resolve (joinpath dest (mname m))
      in case mkind m of
           Directory \<Rightarrow>
             (case mkdir_p fs target of
                Inl e \<Rightarrow> (fs, Some e)
              | Inr fs' \<Rightarrow> (fs', None))
         | Regular bs \<Rightarrow>
             (case mkdir_p fs (butlast target) of
                Inl e \<Rightarrow> (fs, Some e)
              | Inr fs1 \<Rightarrow>
                  (case open_wb fs1 target of
                     Inl e \<Rightarrow> (fs1, Some e)
                   | Inr fs2 \<Rightarrow> (append_file fs2 target bs, None))))"

fun extractall :: "fs \<Rightarrow> path \<Rightarrow> member list \<Rightarrow> fs \<times> error option" where
  "extractall fs dest [] = (fs, None)"
| "extractall fs dest (m # ms) =
     (case extract_member fs dest m of
        (fs', Some e) \<Rightarrow> (fs', Some e)
      | (fs', None) \<Rightarrow> extractall fs' dest ms)"

section \<open>extract_tar_xz\<close>

text \<open>
  The \<open>for m in tf.getmembers()\<close> loop: the name of the first member whose resolved
  target does not start with the resolved destination followed by the separator.
\<close>

fun check_members :: "path \<Rightarrow> member list \<Rightarrow> string option" where
  "check_members dest_dir [] = None"
| "check_members dest_dir (m # ms) =
     (let target = joinpath dest_dir (mname m)
      in if \<not> startswith (str_path (resolve target)) (str_path (resolve dest_dir) @ os_sep)
         then Some (mname m)
         else check_members dest_dir ms)"

text \<open>The body of the \<open>with tarfile.open(...)\<close> block, with what it raises.\<close>

definition tar_attempt :: "codec \<Rightarrow> fs \<Rightarrow> path \<Rightarrow> path \<Rightarrow> fs \<times> (error + string)" where
  "tar_attempt cd fs archive_path dest_dir =
     (case open_rb fs archive_path of
        Inl e \<Rightarrow> (fs, Inl e)
      | Inr bs \<Rightarrow>
          (case tar_open cd bs of
             TarRaises e \<Rightarrow> (fs, Inl e)
           | TarMembers ms \<Rightarrow>
               (case check_members dest_dir ms of
                  Some n \<Rightarrow> (fs, Inl (PathTraversal n))
                | None \<Rightarrow>
                    (case extractall fs dest_dir ms of
                       (fs', Some e) \<Rightarrow> (fs', Inl e)
                     | (fs', None) \<Rightarrow> (fs', Inr ''tarxz'')))))"

text \<open>Lines 76 to 80: the name of the output file of the raw fallback.\<close>

definition raw_out_name :: "string \<Rightarrow> string" where
  "raw_out_name name =
     (let out_name = name;
          out_name = (if endswith out_name ''.xz''
                      then take (length out_name - 3) out_name else out_name);
          out_name = (if endswith out_name ''.tar''
                      then take (length out_name - 4) out_name else out_name)
      in out_name)"

text \<open>
  The copy loop of the raw fallback. \<open>rest\<close> are the decompressed bytes not yet read;
  when they are used up a sound stream ends and a corrupt one raises. Both files are
  opened before the first read, so the stream is read from the archive as it is after
  the output file has been created.
\<close>

function copy_loop :: "bool \<Rightarrow> byte list \<Rightarrow> fs \<Rightarrow> path \<Rightarrow> fs \<times> error option" where
  "copy_loop corrupt rest fs raw_out =
     (case file_read (1024 * 1024) rest of
        Inl e \<Rightarrow> (fs, Some e)
      | Inr (chunk, rest') \<Rightarrow>
          if chunk = [] then (fs, if corrupt then Some LZMAError else None)
          else copy_loop corrupt rest' (append_file fs raw_out chunk) raw_out)"
  by pat_completeness auto
termination
  by (relation "measure (\<lambda>(corrupt, rest, fs, raw_out). length rest)")
     (auto simp: file_read_def split: if_splits)

declare copy_loop.simps [simp del]

definition raw_attempt :: "codec \<Rightarrow> fs \<Rightarrow> path \<Rightarrow> path \<Rightarrow> fs \<times> (error + string)" where
  "raw_attempt cd fs archive_path dest_dir =
     (let raw_out = resolve (joinpath dest_dir (raw_out_name (name_of archive_path)))
      in case open_rb fs archive_path of
           Inl e \<Rightarrow> (fs, Inl e)
         | Inr _ \<Rightarrow>
             (case open_wb fs raw_out of
                Inl e \<Rightarrow> (fs, Inl e)
              | Inr fs1 \<Rightarrow>
                  (case open_rb fs1 archive_path of
                     Inl e \<Rightarrow> (fs1, Inl e)
                   | Inr bs \<Rightarrow>
                       (case (case xz_read cd bs of
                                XzData d \<Rightarrow> copy_loop False d fs1 raw_out
                              | XzCorrupt d \<Rightarrow> copy_loop True d fs1 raw_out) of
                          (fs2, Some e) \<Rightarrow> (fs2, Inl e)
                        | (fs2, None) \<Rightarrow> (fs2, Inr ''rawxz'')))))"

definition extract_tar_xz :: "codec \<Rightarrow> fs \<Rightarrow> path \<Rightarrow> path \<Rightarrow> fs \<times> (error + string)" where
  "extract_tar_xz cd fs archive_path dest_dir =
     (case mkdir_p fs dest_dir of
        Inl e \<Rightarrow> (fs, Inl e)
      | Inr fs1 \<Rightarrow>
          (case tar_attempt cd fs1 archive_path dest_dir of
             (fs2, Inl e) \<Rightarrow>
               if e = TarReadError then raw_attempt cd fs2 archive_path dest_dir
               else (fs2, Inl e)
           | (fs2, Inr kind) \<Rightarrow> (fs2, Inr kind)))"

section \<open>Console output and program state\<close>

text \<open>
  Every \<open>print\<close> of the script is an event; the state is the file system and the
  events printed so far.
\<close>

datatype event =
    TopChecksumMissing string string
  | TopChecksumInvalid string string
  | ChecksumFailed string string string
  | ChecksumPassed string
  | ExtractedTarXz string path
  | DecompressedRawXz string path
  | ExtractedTo string path
  | ExtractError string error
  | NoChecksumDir path
  | NoArchives path
  | SkipChecksumMissing string string
  | SkipChecksumInvalid string string
  | DoneProcessing string nat nat
  | TopLevelNotFound string path
  | SrcNotADirectory path

record state =
  files :: fs
  log :: "event list"

definition say :: "event \<Rightarrow> state \<Rightarrow> state" where
  "say e st = st\<lparr>log := log st @ [e]\<rparr>"

text \<open>\<open>not expected\<close> for the result of \<open>read_expected_sha256\<close>.\<close>

definition falsy :: "string option \<Rightarrow> bool" where
  "falsy x = (case x of None \<Rightarrow> True | Some s \<Rightarrow> s = [])"

section \<open>process_top_level\<close>

text \<open>Lines 115 to 124: the \<open>try\<close> block around \<open>extract_tar_xz\<close>.\<close>

definition top_extract :: "codec \<Rightarrow> path \<Rightarrow> path \<Rightarrow> state \<Rightarrow> state \<times> (error + int)" where
  "top_extract cd archive_path dest_dir st =
     (let arc_name = name_of archive_path
      in case extract_tar_xz cd (files st) archive_path dest_dir of
           (fs', Inr kind) \<Rightarrow>
             (say (if kind = ''tarxz'' then ExtractedTarXz arc_name dest_dir
                   else DecompressedRawXz arc_name dest_dir) (st\<lparr>files := fs'\<rparr>), Inr 1)
         | (fs', Inl e) \<Rightarrow>
             (say (ExtractError arc_name e) (st\<lparr>files := fs'\<rparr>), Inr 0))"

definition process_top_level ::
    "codec \<Rightarrow> path \<Rightarrow> path \<Rightarrow> path option \<Rightarrow> state \<Rightarrow> state \<times> (error + int)" where
  "process_top_level cd archive_path dest_dir checksum_dir st =
     (let arc_name = name_of archive_path
      in case checksum_dir of
           None \<Rightarrow> top_extract cd archive_path dest_dir st
         | Some cdir \<Rightarrow>
             if \<not> is_dir (files st) cdir then top_extract cd archive_path dest_dir st
             else
               (let sha_file = cdir @ [arc_name @ ''.sha256'']
                in if \<not> exists_path (files st) sha_file
                   then top_extract cd archive_path dest_dir
                          (say (TopChecksumMissing arc_name (name_of sha_file)) st)
                   else
                     (let expected = read_expected_sha256 cd (files st) sha_file
                      in if falsy expected
                         then top_extract cd archive_path dest_dir
                                (say (TopChecksumInvalid arc_name (name_of sha_file)) st)
                         else
                           (case sha256_file (files st) archive_path (1024 * 1024) of
                              Inl e \<Rightarrow> (st, Inl e)
                            | Inr actual \<Rightarrow>
                                if lower actual \<noteq> lower (the expected)
                                then (say (ChecksumFailed arc_name (the expected) actual) st,
                                      Inr 0)
                                else top_extract cd archive_path dest_dir
                                       (say (ChecksumPassed arc_name) st)))))"

section \<open>process_subdir\<close>

text \<open>\<open>sorted(src_dir.glob("*.tar.xz"))\<close>: the entries of the directory with that suffix.\<close>

definition glob_tar_xz :: "fs \<Rightarrow> path \<Rightarrow> path list" where
  "glob_tar_xz fs src_dir =
     sort (remdups (filter (\<lambda>p. p \<noteq> [] \<and> butlast p = src_dir \<and> endswith (last p) ''.tar.xz'')
                           (map fst fs)))"

text \<open>
  One iteration of the \<open>for arc in archives\<close> loop: the new state and whether \<open>ok\<close>
  is incremented, or the exception that leaves the loop.
\<close>

definition subdir_step ::
    "codec \<Rightarrow> bool \<Rightarrow> path \<Rightarrow> path \<Rightarrow> path \<Rightarrow> state \<Rightarrow> state \<times> (error + bool)" where
  "subdir_step cd has_checksums checksum_dir out_subdir arc st =
     (let arc_name = name_of arc
      in if has_checksums then
           (let sha_file = checksum_dir @ [arc_name @ ''.sha256'']
            in if \<not> exists_path (files st) sha_file
               then (say (SkipChecksumMissing arc_name (name_of sha_file)) st, Inr False)
               else
                 (let expected = read_expected_sha256 cd (files st) sha_file
                  in if falsy expected
                     then (say (SkipChecksumInvalid arc_name (name_of sha_file)) st, Inr False)
                     else
                       (case sha256_file (files st) arc (1024 * 1024) of
                          Inl e \<Rightarrow> (st, Inl e)
                        | Inr actual \<Rightarrow>
                            if lower actual \<noteq> lower (the expected)
                            then (say (ChecksumFailed arc_name (the expected) actual) st,
                                  Inr False)
                            else
                              (let st1 = say (ChecksumPassed arc_name) st
                               in case extract_tar_xz cd (files st1) arc out_subdir of
                                    (fs', Inr kind) \<Rightarrow>
                                      (say (if kind = ''tarxz''
                                            then ExtractedTarXz arc_name out_subdir
                                            else DecompressedRawXz arc_name out_subdir)
                                         (st1\<lparr>files := fs'\<rparr>), Inr True)
                                  | (fs', Inl e) \<Rightarrow>
                                      (say (ExtractError arc_name e) (st1\<lparr>files := fs'\<rparr>),
                                       Inr False)))))
         else
           (case extract_tar_xz cd (files st) arc out_subdir of
              (fs', Inr kind) \<Rightarrow>
                (say (ExtractedTo arc_name out_subdir) (st\<lparr>files := fs'\<rparr>), Inr True)
            | (fs', Inl e) \<Rightarrow>
                (say (ExtractError arc_name e) (st\<lparr>files := fs'\<rparr>), Inr False)))"

fun subdir_loop ::
    "codec \<Rightarrow> bool \<Rightarrow> path \<Rightarrow> path \<Rightarrow> path list \<Rightarrow> nat \<Rightarrow> nat \<Rightarrow> state
       \<Rightarrow> state \<times> (error + nat \<times> nat)" where
  "subdir_loop cd has_checksums checksum_dir out_subdir [] total_n ok st = (st, Inr (total_n, ok))"
| "subdir_loop cd has_checksums checksum_dir out_subdir (arc # archives) total_n ok st =
     (case subdir_step cd has_checksums checksum_dir out_subdir arc st of
        (st', Inl e) \<Rightarrow> (st', Inl e)
      | (st', Inr inc) \<Rightarrow>
          subdir_loop cd has_checksums checksum_dir out_subdir archives
            (total_n + 1) (if inc then ok + 1 else ok) st')"

definition process_subdir ::
    "codec \<Rightarrow> path \<Rightarrow> path \<Rightarrow> path \<Rightarrow> state \<Rightarrow> state \<times> (error + nat)" where
  "process_subdir cd src_dir dest_dir extracted_dest_dir st =
     (let checksum_dir = src_dir @ [''checksums''];
          has_checksums = is_dir (files st) checksum_dir;
          st1 = (if \<not> has_checksums then say (NoChecksumDir src_dir) st else st);
          archives = glob_tar_xz (files st1) src_dir
      in if archives = [] then (say (NoArchives src_dir) st1, Inr 0)
         else
           (case subdir_loop cd has_checksums checksum_dir extracted_dest_dir archives 0 0 st1 of
              (st2, Inl e) \<Rightarrow> (st2, Inl e)
            | (st2, Inr (total_n, ok)) \<Rightarrow>
                (say (DoneProcessing (name_of src_dir) ok total_n) st2, Inr ok)))"

section \<open>process and main\<close>

text \<open>Lines 202 to 214: the two subdirectories, then \<open>return 0\<close>.\<close>

definition process_subdirs :: "codec \<Rightarrow> path \<Rightarrow> state \<Rightarrow> state \<times> (error + int)" where
  "process_subdirs cd dest_dir st =
     (let extracted_src = dest_dir;
          attack_data_dir = extracted_src @ [''attack_data''];
          r1 = (if is_dir (files st) attack_data_dir
                then (case process_subdir cd attack_data_dir attack_data_dir
                             (dest_dir @ [''extracted_attack_data'']) st of
                        (st', Inl e) \<Rightarrow> (st', Some e)
                      | (st', Inr n) \<Rightarrow> (st', None))
                else (st, None))
      in case r1 of
           (st1, Some e) \<Rightarrow> (st1, Inl e)
         | (st1, None) \<Rightarrow>
             (let benign_data_dir = extracted_src @ [''benign_data'']
              in if is_dir (files st1) benign_data_dir
                 then (case process_subdir cd benign_data_dir benign_data_dir
                              (dest_dir @ [''extracted_benign_data'']) st1 of
                         (st2, Inl e) \<Rightarrow> (st2, Inl e)
                       | (st2, Inr n) \<Rightarrow> (st2, Inr 0))
                 else (st1, Inr 0)))"

text \<open>
  \<open>process\<close>. Line 193 binds \<open>checksum_dir\<close> to \<open>None\<close>, and that is what the call of
  \<open>process_top_level\<close> receives.
\<close>

definition process :: "codec \<Rightarrow> path \<Rightarrow> path \<Rightarrow> string \<Rightarrow> state \<Rightarrow> state \<times> (error + int)" where
  "process cd src_dir dest_dir top_level_archive_name st =
     (case mkdir_p (files st) dest_dir of
        Inl e \<Rightarrow> (st, Inl e)
      | Inr fs1 \<Rightarrow>
          (let st1 = st\<lparr>files := fs1\<rparr>;
               top_level_archive = src_dir @ [top_level_archive_name]
           in if exists_path (files st1) top_level_archive then
                (let checksum_dir = None
                 in case process_top_level cd top_level_archive dest_dir checksum_dir st1 of
                      (st2, Inl e) \<Rightarrow> (st2, Inl e)
                    | (st2, Inr r) \<Rightarrow>
                        if r = 1 then process_subdirs cd dest_dir st2
                        else (st2, Inr 1))
              else (say (TopLevelNotFound top_level_archive_name src_dir) st1, Inr 1)))"

definition default_top_level_archive_name :: string where
  "default_top_level_archive_name = ''all_attack_benign_samples.tar.xz''"

text \<open>
  \<open>main\<close> after argument parsing, on the resolved source path and the resolved
  destination path when one is given. \<open>Inr c\<close> is \<open>sys.exit(c)\<close>, \<open>Inl e\<close> an exception
  that nothing catches; the interpreter then prints a traceback and exits with status 1.
\<close>

definition main :: "codec \<Rightarrow> path \<Rightarrow> path option \<Rightarrow> state \<Rightarrow> state \<times> (error + int)" where
  "main cd src dest_arg st =
     (if \<not> is_dir (files st) src then (say (SrcNotADirectory src) st, Inr 2)
      else
        (let dest = (case dest_arg of Some d \<Rightarrow> d | None \<Rightarrow> src)
         in case mkdir_p (files st) dest of
              Inl e \<Rightarrow> (st, Inl e)
            | Inr fs1 \<Rightarrow>
                process cd src dest default_top_level_archive_name (st\<lparr>files := fs1\<rparr>)))"

definition exit_status :: "error + int \<Rightarrow> int" where
  "exit_status r = (case r of Inl e \<Rightarrow> 1 | Inr c \<Rightarrow> c)"

section \<open>Notions used in the statements\<close>

text \<open>The first whitespace-delimited token of a text.\<close>

definition first_token :: "string \<Rightarrow> string" where
  "first_token text = takeWhile (\<lambda>c. \<not> isspace c) (dropWhile isspace text)"

text \<open>
  A well-formed absolute path: no component is empty or contains the separator. A
  normalised one, as \<open>Path.resolve()\<close> returns it, has no \<open>.\<close> and \<open>..\<close> either.
\<close>

definition valid_path :: "string list \<Rightarrow> bool" where
  "valid_path p = list_all (\<lambda>c. c \<noteq> [] \<and> CHR ''/'' \<notin> set c) p"

definition normalized :: "string list \<Rightarrow> bool" where
  "normalized p =
     list_all (\<lambda>c. c \<noteq> [] \<and> CHR ''/'' \<notin> set c \<and> c \<noteq> ''.'' \<and> c \<noteq> ''..'') p"

text \<open>A path at which a regular file stands.\<close>

definition is_file :: "fs \<Rightarrow> path \<Rightarrow> bool" where
  "is_file fs p = (case node_at fs p of Some (File _) \<Rightarrow> True | _ \<Rightarrow> False)"

section \<open>An example decoder\<close>

text \<open>
  The examples below fix one decoder: text is decoded as Latin-1 (every byte is the
  character with that code point), and the tar and xz views of a file are given by
  the two tables passed to \<open>table_codec\<close>; a file in neither table is not an xz stream at all.
\<close>

definition latin1 :: "byte list \<Rightarrow> string" where
  "latin1 bs = map (\<lambda>b. char_of (unat b)) bs"

definition table_codec ::
    "(byte list \<times> member list) list \<Rightarrow> (byte list \<times> byte list) list \<Rightarrow> codec" where
  "table_codec tars raws =
     \<lparr> decode_text = latin1,
       tar_open = (\<lambda>bs. case map_of tars bs of
                           Some ms \<Rightarrow> TarMembers ms
                         | None \<Rightarrow> TarRaises TarReadError),
       xz_read = (\<lambda>bs. case map_of raws bs of
                          Some out \<Rightarrow> XzData out
                        | None \<Rightarrow> XzCorrupt []) \<rparr>"

section \<open>Properties of the hasher\<close>

lemma hex_digit_lower: "hex_digit n \<in> set ''0123456789abcdef''"
proof -
  have "unat (n AND 0xf) \<le> unat (0xf :: u32)"
    by (rule word_and_le1 [THEN word_le_nat_alt [THEN iffD1]])
  then have "unat (n AND 0xf) < length ''0123456789abcdef''"
    by simp
  then show ?thesis
    unfolding hex_digit_def by (rule nth_mem)
qed

lemma hex_word_length: "length (hex_word w) = 8"
  by (simp add: hex_word_def)

lemma hex_word_lower: "set (hex_word w) \<subseteq> set ''0123456789abcdef''"
  unfolding hex_word_def using hex_digit_lower by auto

lemma sha256_hex_length: "length (sha256_hex m) = 64"
  by (cases "sha256_regs m") (simp add: sha256_hex_def hex_word_length)

lemma sha256_hex_lower: "set (sha256_hex m) \<subseteq> set ''0123456789abcdef''"
proof (cases "sha256_regs m")
  case (Regs a b c d e f g h)
  then show ?thesis
    using hex_word_lower [of a] hex_word_lower [of b] hex_word_lower [of c]
      hex_word_lower [of d] hex_word_lower [of e] hex_word_lower [of f]
      hex_word_lower [of g] hex_word_lower [of h]
    by (simp add: sha256_hex_def)
qed

lemma sha256_loop_positive:
  "0 < bufsize \<Longrightarrow> sha256_loop bufsize rest h = Inr (h @ rest)"
proof (induction bufsize rest h rule: sha256_loop.induct)
  case (1 bufsize rest h)
  show ?case
  proof (cases "rest = []")
    case True
    with "1.prems" show ?thesis
      by (subst sha256_loop.simps) (simp add: file_read_def)
  next
    case False
    with "1.prems" have nonempty: "take (nat bufsize) rest \<noteq> []"
      by simp
    from "1.prems" have rd:
      "file_read bufsize rest = Inr (take (nat bufsize) rest, drop (nat bufsize) rest)"
      by (simp add: file_read_def)
    from "1.IH" [OF rd refl nonempty "1.prems"]
    have "sha256_loop bufsize (drop (nat bufsize) rest) (update h (take (nat bufsize) rest))
            = Inr (update h (take (nat bufsize) rest) @ drop (nat bufsize) rest)" .
    with rd nonempty show ?thesis
      by (subst sha256_loop.simps) (simp add: update_def)
  qed
qed

text \<open>
  C7. For every regular file and every positive chunk size, \<open>sha256_file\<close> returns the
  SHA-256 of the whole content, whatever the chunk size, as 64 lowercase hexadecimal
  characters.
\<close>

theorem sha256_file_chunk_invariant:
  assumes "node_at fs p = Some (File bs)" and "0 < bufsize"
  shows "sha256_file fs p bufsize = Inr (sha256_hex bs)
       \<and> length (sha256_hex bs) = 64
       \<and> set (sha256_hex bs) \<subseteq> set ''0123456789abcdef''"
proof (intro conjI)
  show "sha256_file fs p bufsize = Inr (sha256_hex bs)"
    using assms sha256_loop_positive [of bufsize bs sha256_new]
    by (simp add: sha256_file_def open_rb_def hexdigest_def sha256_new_def)
  show "length (sha256_hex bs) = 64"
    by (rule sha256_hex_length)
  show "set (sha256_hex bs) \<subseteq> set ''0123456789abcdef''"
    by (rule sha256_hex_lower)
qed

theorem sha256_file_chunk_invariant_witness:
  "node_at [([''data.bin''], File [1, 2, 3])] [''data.bin''] = Some (File [1, 2, 3])
   \<and> (0::int) < 2
   \<and> sha256_file [([''data.bin''], File [1, 2, 3])] [''data.bin''] 2 = Inr (sha256_hex [1, 2, 3])
   \<and> sha256_file [([''data.bin''], File [1, 2, 3])] [''data.bin''] 1048576
        = Inr (sha256_hex [1, 2, 3])"
proof -
  have n: "node_at [([''data.bin''], File [1, 2, 3])] [''data.bin''] = Some (File [1, 2, 3])"
    by (simp add: node_at_def)
  show ?thesis
    using n sha256_file_chunk_invariant [OF n, of 2]
      sha256_file_chunk_invariant [OF n, of 1048576]
    by simp
qed
section \<open>Properties of read_expected_sha256\<close>

lemma islinebreak_isspace: "islinebreak c \<Longrightarrow> isspace c"
  by (auto simp: islinebreak_def isspace_def)

lemma rstrip_decomp:
  "\<exists>r. d = rev (dropWhile P (rev d)) @ r \<and> (\<forall>x \<in> set r. P x)"
proof -
  have "rev d = takeWhile P (rev d) @ dropWhile P (rev d)"
    by simp
  then have "d = rev (dropWhile P (rev d)) @ rev (takeWhile P (rev d))"
    by (metis rev_append rev_rev_ident)
  moreover have "\<forall>x \<in> set (rev (takeWhile P (rev d))). P x"
    by (auto dest: set_takeWhileD)
  ultimately show ?thesis
    by blast
qed

lemma takeWhile_append_all:
  assumes "\<forall>x \<in> set r. P x"
  shows "takeWhile (\<lambda>x. \<not> P x) (t @ r) = takeWhile (\<lambda>x. \<not> P x) t"
proof (cases "\<forall>x \<in> set t. \<not> P x")
  case True
  have "takeWhile (\<lambda>x. \<not> P x) r = []"
    using assms by (cases r) auto
  moreover have "takeWhile (\<lambda>x. \<not> P x) t = t"
    using True by (induction t) auto
  moreover have "takeWhile (\<lambda>x. \<not> P x) (t @ r) = t @ takeWhile (\<lambda>x. \<not> P x) r"
    using True by (simp add: takeWhile_append2)
  ultimately show ?thesis
    by (simp only: append_Nil2)
next
  case False
  then obtain x where "x \<in> set t" "P x"
    by blast
  then show ?thesis
    by (simp add: takeWhile_append1)
qed

lemma takeWhile_rstrip:
  "takeWhile (\<lambda>x. \<not> P x) (rev (dropWhile P (rev d))) = takeWhile (\<lambda>x. \<not> P x) d"
proof -
  obtain r where d: "d = rev (dropWhile P (rev d)) @ r" and r: "\<forall>x \<in> set r. P x"
    using rstrip_decomp [of d P] by blast
  have "takeWhile (\<lambda>x. \<not> P x) d = takeWhile (\<lambda>x. \<not> P x) (rev (dropWhile P (rev d)) @ r)"
    using d by simp
  also have "\<dots> = takeWhile (\<lambda>x. \<not> P x) (rev (dropWhile P (rev d)))"
    using r by (rule takeWhile_append_all)
  finally show ?thesis
    by simp
qed

lemma strip_token: "takeWhile (\<lambda>c. \<not> isspace c) (strip s) = first_token s"
  by (simp add: strip_def first_token_def takeWhile_rstrip)

lemma dropWhile_hd: "dropWhile P s = x # xs \<Longrightarrow> \<not> P x"
  by (metis hd_dropWhile list.sel(1) list.distinct(1))

lemma strip_empty_iff: "strip s = [] \<longleftrightarrow> dropWhile isspace s = []"
proof
  assume e: "strip s = []"
  obtain r where d: "dropWhile isspace s = strip s @ r" and r: "\<forall>x \<in> set r. isspace x"
    using rstrip_decomp [of "dropWhile isspace s" isspace] unfolding strip_def by blast
  show "dropWhile isspace s = []"
  proof (cases "dropWhile isspace s")
    case Nil
    then show ?thesis .
  next
    case (Cons x xs)
    then have "\<not> isspace x"
      by (rule dropWhile_hd)
    moreover have "x \<in> set r"
      using Cons d e by (simp only: append_Nil) (metis list.set_intros(1))
    ultimately show ?thesis
      using r by blast
  qed
next
  assume "dropWhile isspace s = []"
  then show "strip s = []"
    unfolding strip_def by (simp only: rev.simps dropWhile.simps)
qed

lemma strip_first_not_space:
  assumes "strip s = x # xs"
  shows "\<not> isspace x"
proof -
  obtain r where d: "dropWhile isspace s = strip s @ r"
    using rstrip_decomp [of "dropWhile isspace s" isspace] unfolding strip_def by blast
  with assms have "dropWhile isspace s = x # (xs @ r)"
    by (simp only: append_Cons)
  then show ?thesis
    by (rule dropWhile_hd)
qed

lemma strip_no_space: "\<forall>c \<in> set t. \<not> isspace c \<Longrightarrow> strip t = t"
proof (cases t rule: rev_cases)
  case Nil
  then show ?thesis
    by (simp add: strip_def)
next
  case (snoc ys y)
  assume a: "\<forall>c \<in> set t. \<not> isspace c"
  then have 1: "dropWhile isspace t = t"
    by (cases t) auto
  from a snoc have 2: "dropWhile isspace (rev t) = rev t"
    by simp
  show ?thesis
    by (simp add: strip_def 1 2)
qed

lemma first_token_no_space: "\<forall>c \<in> set (first_token s). \<not> isspace c"
  by (auto simp: first_token_def dest: set_takeWhileD)

lemma takeWhile_line_token:
  "takeWhile (\<lambda>c. \<not> isspace c) (takeWhile (\<lambda>c. \<not> islinebreak c) s)
     = takeWhile (\<lambda>c. \<not> isspace c) s"
  by (induction s) (auto dest: islinebreak_isspace)

lemma splitlines_first:
  "s \<noteq> [] \<Longrightarrow> \<exists>ls. splitlines s = takeWhile (\<lambda>c. \<not> islinebreak c) s # ls"
  by (subst splitlines.simps) simp

lemma split_ws_first:
  assumes "s = x # xs" and "\<not> isspace x"
  shows "\<exists>ts. split_ws s = takeWhile (\<lambda>c. \<not> isspace c) s # ts"
  using assms by (subst split_ws.simps) simp

lemma read_expected_body_text:
  assumes "open_rb fs p = Inr bs"
  shows "read_expected_body cd fs p =
           Inr (if length (filter is_hex_char (first_token (decode_text cd bs))) = 64
                then Some (filter is_hex_char (first_token (decode_text cd bs)))
                else None)"
proof (cases "strip (decode_text cd bs)")
  case Nil
  then have "dropWhile isspace (decode_text cd bs) = []"
    by (simp add: strip_empty_iff)
  then have "first_token (decode_text cd bs) = []"
    unfolding first_token_def by (simp only: takeWhile.simps)
  with Nil assms show ?thesis
    by (simp add: read_expected_body_def)
next
  case (Cons x xs)
  let ?text = "strip (decode_text cd bs)"
  let ?tok = "first_token (decode_text cd bs)"
  have nsp: "\<not> isspace x"
    using Cons by (rule strip_first_not_space)
  then have nlb: "\<not> islinebreak x"
    using islinebreak_isspace by blast
  have ne: "?text \<noteq> []"
    using Cons by simp
  then obtain ls where lines: "splitlines ?text = takeWhile (\<lambda>c. \<not> islinebreak c) ?text # ls"
    using splitlines_first by blast
  let ?l = "takeWhile (\<lambda>c. \<not> islinebreak c) ?text"
  have l_cons: "?l = x # takeWhile (\<lambda>c. \<not> islinebreak c) xs"
    using Cons nlb by simp
  have tok_l: "takeWhile (\<lambda>c. \<not> isspace c) ?l = ?tok"
    by (simp add: takeWhile_line_token strip_token)
  have "first_token ?l = takeWhile (\<lambda>c. \<not> isspace c) ?l"
    using l_cons nsp by (simp add: first_token_def)
  then have tok_strip_l: "takeWhile (\<lambda>c. \<not> isspace c) (strip ?l) = ?tok"
    using tok_l by (simp add: strip_token)
  have tok_ne: "?tok \<noteq> []"
    using tok_l l_cons nsp by auto
  then obtain y ys where sl: "strip ?l = y # ys"
    using tok_strip_l by (cases "strip ?l") auto
  then have "\<not> isspace y"
    by (rule strip_first_not_space)
  with sl obtain ts where sp: "split_ws (strip ?l) = ?tok # ts"
    using split_ws_first [of "strip ?l" y ys] tok_strip_l by auto
  have st: "strip ?tok = ?tok"
    using first_token_no_space by (rule strip_no_space)
  show ?thesis
    unfolding read_expected_body_def Let_def
    by (simp only: assms sum.case ne if_False lines list.case sp st)
qed

text \<open>
  C5 (as amended). \<open>read_expected_sha256\<close> never raises: a file that cannot be read
  gives \<open>None\<close>. Otherwise it takes the first whitespace-delimited token of the text,
  drops the characters that are not hexadecimal digits, and returns what is left when
  exactly 64 characters are left, else \<open>None\<close>. In particular a first token that is a
  64-character hexadecimal string is returned as it is.
\<close>

theorem read_expected_sha256_cleaned_token:
  "read_expected_sha256 cd fs p =
     (case open_rb fs p of
        Inl e \<Rightarrow> None
      | Inr bs \<Rightarrow>
          (if length (filter is_hex_char (first_token (decode_text cd bs))) = 64
           then Some (filter is_hex_char (first_token (decode_text cd bs)))
           else None))
   \<and> (open_rb fs p = Inr bs
        \<and> length (first_token (decode_text cd bs)) = 64
        \<and> filter is_hex_char (first_token (decode_text cd bs)) = first_token (decode_text cd bs)
      \<longrightarrow> read_expected_sha256 cd fs p = Some (first_token (decode_text cd bs)))"
proof -
  have main: "read_expected_sha256 cd fs p =
     (case open_rb fs p of
        Inl e \<Rightarrow> None
      | Inr bs \<Rightarrow>
          (if length (filter is_hex_char (first_token (decode_text cd bs))) = 64
           then Some (filter is_hex_char (first_token (decode_text cd bs)))
           else None))"
  proof (cases "open_rb fs p")
    case (Inl e)
    then show ?thesis
      by (simp add: read_expected_sha256_def read_expected_body_def)
  next
    case (Inr bs')
    then show ?thesis
      by (simp add: read_expected_sha256_def read_expected_body_text)
  qed
  show ?thesis
  proof (intro conjI impI)
    show "read_expected_sha256 cd fs p =
     (case open_rb fs p of
        Inl e \<Rightarrow> None
      | Inr bs \<Rightarrow>
          (if length (filter is_hex_char (first_token (decode_text cd bs))) = 64
           then Some (filter is_hex_char (first_token (decode_text cd bs)))
           else None))"
      by (rule main)
  next
    assume "open_rb fs p = Inr bs
        \<and> length (first_token (decode_text cd bs)) = 64
        \<and> filter is_hex_char (first_token (decode_text cd bs)) = first_token (decode_text cd bs)"
    then show "read_expected_sha256 cd fs p = Some (first_token (decode_text cd bs))"
      by (simp add: main)
  qed
qed

lemma latin1_replicate: "latin1 (replicate n b) = replicate n (char_of (unat b))"
  by (simp add: latin1_def)

lemma latin1_append: "latin1 (xs @ ys) = latin1 xs @ latin1 ys"
  by (simp add: latin1_def)

lemma latin1_Cons: "latin1 (b # bs) = char_of (unat b) # latin1 bs"
  by (simp add: latin1_def)

lemma latin1_Nil: "latin1 [] = []"
  by (simp add: latin1_def)

lemma is_hex_char_a: "is_hex_char (CHR ''a'')"
  by (simp add: is_hex_char_def lower_char_def)

lemma not_is_hex_char_z: "\<not> is_hex_char (CHR ''z'')"
  by (simp add: is_hex_char_def lower_char_def)

lemma not_isspace_a: "\<not> isspace (CHR ''a'')"
  by (simp add: isspace_def)

lemma not_isspace_z: "\<not> isspace (CHR ''z'')"
  by (simp add: isspace_def)

lemma isspace_blank: "isspace (CHR '' '')"
  by (simp add: isspace_def)

lemma takeWhile_run:
  "\<not> isspace c \<Longrightarrow>
   takeWhile (\<lambda>x. \<not> isspace x) (replicate n c @ CHR '' '' # rest) = replicate n c"
  by (induction n) (simp_all add: isspace_blank)

lemma first_token_run:
  "\<not> isspace c \<Longrightarrow> 0 < n \<Longrightarrow>
   first_token (replicate n c @ CHR '' '' # rest) = replicate n c"
  by (cases n) (simp_all add: first_token_def takeWhile_run)

lemma char_of_a: "char_of (unat (0x61 :: byte)) = CHR ''a''"
  by code_simp

lemma char_of_z: "char_of (unat (0x7A :: byte)) = CHR ''z''"
  by code_simp

lemma char_of_blank: "char_of (unat (0x20 :: byte)) = CHR '' ''"
  by code_simp

lemma first_token_z_run: "first_token (CHR ''z'' # replicate n (CHR ''a'')) = CHR ''z'' # replicate n (CHR ''a'')"
  by (simp add: first_token_def not_isspace_z not_isspace_a takeWhile_eq_all_conv [THEN iffD2])

theorem read_expected_sha256_cleaned_token_witness:
  "open_rb [([''c.sha256''], File (replicate 64 0x61 @ [0x20, 0x2A, 0x66]))] [''c.sha256'']
       = Inr (replicate 64 0x61 @ [0x20, 0x2A, 0x66])
   \<and> length (first_token (latin1 (replicate 64 0x61 @ [0x20, 0x2A, 0x66]))) = 64
   \<and> filter is_hex_char (first_token (latin1 (replicate 64 0x61 @ [0x20, 0x2A, 0x66])))
       = first_token (latin1 (replicate 64 0x61 @ [0x20, 0x2A, 0x66]))
   \<and> read_expected_sha256 (table_codec [] [])
        [([''c.sha256''], File (replicate 64 0x61 @ [0x20, 0x2A, 0x66]))] [''c.sha256'']
       = Some (replicate 64 (CHR ''a''))"
proof -
  have tok: "first_token (latin1 (replicate 64 0x61 @ [0x20, 0x2A, 0x66])) = replicate 64 (CHR ''a'')"
    using first_token_run [OF not_isspace_a, of 64 "latin1 [0x2A, 0x66]"]
    by (simp only: latin1_append latin1_replicate latin1_Cons char_of_a char_of_blank)
  have dec: "decode_text (table_codec [] []) = latin1"
    by (simp add: table_codec_def)
  have op: "open_rb [([''c.sha256''], File (replicate 64 0x61 @ [0x20, 0x2A, 0x66]))] [''c.sha256'']
       = Inr (replicate 64 0x61 @ [0x20, 0x2A, 0x66])"
    by (simp add: open_rb_def node_at_def)
  have flt: "filter is_hex_char (replicate 64 (CHR ''a'')) = replicate 64 (CHR ''a'')"
    using is_hex_char_a by simp
  show ?thesis
    using read_expected_sha256_cleaned_token
      [of "table_codec [] []" "[([''c.sha256''], File (replicate 64 0x61 @ [0x20, 0x2A, 0x66]))]"
          "[''c.sha256'']" "replicate 64 0x61 @ [0x20, 0x2A, 0x66]"]
    by (simp only: op dec tok flt length_replicate sum.case if_True simp_thms)
qed

text \<open>
  C5 as stated fails: the first token \<open>z\<close> followed by 64 times \<open>a\<close> is not a
  64-character hexadecimal string (it has 65 characters, one of them not a hexadecimal
  digit), yet the function returns the 64 digits instead of \<open>None\<close>.
\<close>

theorem read_expected_sha256_counterexample:
  "first_token (latin1 (0x7A # replicate 64 0x61)) = CHR ''z'' # replicate 64 (CHR ''a'')
   \<and> \<not> is_hex_char (CHR ''z'')
   \<and> read_expected_sha256 (table_codec [] [])
        [([''c.sha256''], File (0x7A # replicate 64 0x61))] [''c.sha256'']
       = Some (replicate 64 (CHR ''a''))"
proof -
  have tok: "first_token (latin1 (0x7A # replicate 64 0x61)) = CHR ''z'' # replicate 64 (CHR ''a'')"
    using first_token_z_run [of 64]
    by (simp only: latin1_replicate latin1_Cons char_of_a char_of_z)
  have dec: "decode_text (table_codec [] []) = latin1"
    by (simp add: table_codec_def)
  have op: "open_rb [([''c.sha256''], File (0x7A # replicate 64 0x61))] [''c.sha256'']
       = Inr (0x7A # replicate 64 0x61)"
    by (simp add: open_rb_def node_at_def)
  have flt: "filter is_hex_char (CHR ''z'' # replicate 64 (CHR ''a'')) = replicate 64 (CHR ''a'')"
    using is_hex_char_a not_is_hex_char_z by simp
  have body: "read_expected_body (table_codec [] [])
        [([''c.sha256''], File (0x7A # replicate 64 0x61))] [''c.sha256'']
       = Inr (Some (replicate 64 (CHR ''a'')))"
    by (simp only: read_expected_body_text [OF op] dec tok flt length_replicate) simp
  show ?thesis
    by (simp only: tok not_is_hex_char_z read_expected_sha256_def body sum.case simp_thms)
qed

section \<open>Properties of the file system operations\<close>

lemma node_at_put:
  "p \<noteq> [] \<Longrightarrow> node_at (put fs p n) q = (if q = p then Some n else node_at fs q)"
  by (auto simp: node_at_def put_def)

lemma mkdirs_keeps:
  "mkdirs fs pre cs = Inr fs' \<Longrightarrow> node_at fs q = Some n \<Longrightarrow> node_at fs' q = Some n"
proof (induction cs arbitrary: fs pre)
  case Nil
  then show ?case by simp
next
  case (Cons c cs)
  show ?case
  proof (cases "node_at fs (pre @ [c])")
    case None
    with Cons.prems have rec: "mkdirs (put fs (pre @ [c]) Dir) (pre @ [c]) cs = Inr fs'"
      by simp
    from None Cons.prems(2) have "q \<noteq> pre @ [c]"
      by auto
    then have "node_at (put fs (pre @ [c]) Dir) q = Some n"
      using Cons.prems(2) by (simp add: node_at_put)
    with rec show ?thesis
      by (rule Cons.IH)
  next
    case (Some nd)
    with Cons.prems show ?thesis
      by (cases nd) (auto intro: Cons.IH)
  qed
qed

lemma mkdirs_new_is_dir:
  "mkdirs fs pre cs = Inr fs' \<Longrightarrow> node_at fs' q = Some (File b)
     \<Longrightarrow> node_at fs q = Some (File b)"
proof (induction cs arbitrary: fs pre)
  case Nil
  then show ?case by simp
next
  case (Cons c cs)
  show ?case
  proof (cases "node_at fs (pre @ [c])")
    case None
    with Cons.prems have rec: "mkdirs (put fs (pre @ [c]) Dir) (pre @ [c]) cs = Inr fs'"
      by simp
    from rec Cons.prems(2) have "node_at (put fs (pre @ [c]) Dir) q = Some (File b)"
      by (rule Cons.IH)
    then show ?thesis
      by (simp add: node_at_put split: if_splits)
  next
    case (Some nd)
    with Cons.prems show ?thesis
      by (cases nd) (auto intro: Cons.IH)
  qed
qed

lemma mkdirs_longer_unchanged:
  "mkdirs fs pre cs = Inr fs' \<Longrightarrow> length (pre @ cs) < length q
     \<Longrightarrow> node_at fs' q = node_at fs q"
proof (induction cs arbitrary: fs pre)
  case Nil
  then show ?case by simp
next
  case (Cons c cs)
  show ?case
  proof (cases "node_at fs (pre @ [c])")
    case None
    with Cons.prems have rec: "mkdirs (put fs (pre @ [c]) Dir) (pre @ [c]) cs = Inr fs'"
      by simp
    from Cons.prems(2) have len: "length ((pre @ [c]) @ cs) < length q"
      by simp
    from Cons.prems(2) have "q \<noteq> pre @ [c]"
      by auto
    then have "node_at (put fs (pre @ [c]) Dir) q = node_at fs q"
      by (simp add: node_at_put)
    with Cons.IH [OF rec len] show ?thesis
      by simp
  next
    case (Some nd)
    with Cons.prems show ?thesis
      by (cases nd) (auto dest: Cons.IH)
  qed
qed

lemma mkdirs_is_dir:
  "mkdirs fs pre cs = Inr fs' \<Longrightarrow> is_dir fs pre \<Longrightarrow> is_dir fs' (pre @ cs)"
proof (induction cs arbitrary: fs pre)
  case Nil
  then show ?case by simp
next
  case (Cons c cs)
  show ?case
  proof (cases "node_at fs (pre @ [c])")
    case None
    with Cons.prems have rec: "mkdirs (put fs (pre @ [c]) Dir) (pre @ [c]) cs = Inr fs'"
      by simp
    have "is_dir (put fs (pre @ [c]) Dir) (pre @ [c])"
      by (simp add: is_dir_def node_at_put)
    with rec have "is_dir fs' ((pre @ [c]) @ cs)"
      by (rule Cons.IH)
    then show ?thesis by simp
  next
    case (Some nd)
    show ?thesis
    proof (cases nd)
      case Dir
      with Some Cons.prems have rec: "mkdirs fs (pre @ [c]) cs = Inr fs'"
        by simp
      from Some Dir have "is_dir fs (pre @ [c])"
        by (simp add: is_dir_def)
      with rec have "is_dir fs' ((pre @ [c]) @ cs)"
        by (rule Cons.IH)
      then show ?thesis by simp
    next
      case (File b)
      with Some Cons.prems show ?thesis by simp
    qed
  qed
qed

lemma mkdir_p_is_dir: "mkdir_p fs p = Inr fs' \<Longrightarrow> is_dir fs' p"
  using mkdirs_is_dir [of fs "[]" p fs'] by (simp add: mkdir_p_def is_dir_def node_at_def)

lemma mkdir_p_keeps:
  "mkdir_p fs p = Inr fs' \<Longrightarrow> node_at fs q = Some n \<Longrightarrow> node_at fs' q = Some n"
  unfolding mkdir_p_def by (rule mkdirs_keeps)

lemma mkdir_p_keeps_dir: "mkdir_p fs p = Inr fs' \<Longrightarrow> is_dir fs q \<Longrightarrow> is_dir fs' q"
  unfolding is_dir_def by (rule mkdir_p_keeps)

lemma mkdir_p_files:
  "mkdir_p fs p = Inr fs' \<Longrightarrow>
   node_at fs' q = Some (File b) \<longleftrightarrow> node_at fs q = Some (File b)"
  unfolding mkdir_p_def by (blast intro: mkdirs_keeps mkdirs_new_is_dir)

lemma mkdir_p_longer_unchanged:
  "mkdir_p fs p = Inr fs' \<Longrightarrow> length p < length q \<Longrightarrow> node_at fs' q = node_at fs q"
  using mkdirs_longer_unchanged [of fs "[]" p fs' q] by (simp add: mkdir_p_def)

lemma open_wb_keeps_dir: "open_wb fs p = Inr fs' \<Longrightarrow> is_dir fs q \<Longrightarrow> is_dir fs' q"
  by (auto simp: open_wb_def is_dir_def node_at_put put_def node_at_def
      split: option.splits node.splits if_splits)

lemma append_file_keeps_dir: "is_dir fs q \<Longrightarrow> is_dir (append_file fs p chunk) q"
  by (auto simp: append_file_def is_dir_def put_def node_at_def
      split: option.splits node.splits if_splits)

lemma extract_member_keeps_dir:
  "is_dir fs q \<Longrightarrow> is_dir (fst (extract_member fs dest m)) q"
  by (auto simp: extract_member_def Let_def
      intro: mkdir_p_keeps_dir open_wb_keeps_dir append_file_keeps_dir
      split: member_kind.splits sum.splits)

lemma extractall_keeps_dir:
  "is_dir fs q \<Longrightarrow> is_dir (fst (extractall fs dest ms)) q"
proof (induction ms arbitrary: fs)
  case Nil
  then show ?case by simp
next
  case (Cons m ms)
  obtain fs' r where em: "extract_member fs dest m = (fs', r)"
    by (cases "extract_member fs dest m")
  with Cons.prems have d: "is_dir fs' q"
    using extract_member_keeps_dir [of fs q dest m] by simp
  show ?case
  proof (cases r)
    case None
    with em Cons.IH [OF d] show ?thesis by simp
  next
    case (Some e)
    with em d show ?thesis by simp
  qed
qed

lemma copy_loop_keeps_dir:
  "is_dir fs q \<Longrightarrow> is_dir (fst (copy_loop corrupt rest fs raw_out)) q"
proof (induction corrupt rest fs raw_out rule: copy_loop.induct)
  case (1 corrupt rest fs raw_out)
  show ?case
  proof (cases "file_read (1024 * 1024) rest")
    case (Inl e)
    with "1.prems" show ?thesis
      by (subst copy_loop.simps) simp
  next
    case (Inr pr)
    obtain chunk rest' where pr: "pr = (chunk, rest')"
      by (cases pr)
    show ?thesis
    proof (cases "chunk = []")
      case True
      with Inr pr "1.prems" show ?thesis
        by (subst copy_loop.simps) simp
    next
      case False
      have "is_dir (append_file fs raw_out chunk) q"
        using "1.prems" by (rule append_file_keeps_dir)
      then have "is_dir (fst (copy_loop corrupt rest' (append_file fs raw_out chunk) raw_out)) q"
        using "1.IH" [OF Inr [unfolded pr] refl False] by simp
      with Inr pr False show ?thesis
        by (subst copy_loop.simps) simp
    qed
  qed
qed

lemma copy_loop_sound:
  "node_at fs raw_out = Some (File acc) \<Longrightarrow>
   \<exists>fs'. copy_loop False rest fs raw_out = (fs', None)
        \<and> node_at fs' raw_out = Some (File (acc @ rest))
        \<and> (\<forall>q. q \<noteq> raw_out \<longrightarrow> node_at fs' q = node_at fs q)"
proof (induction "False" rest fs raw_out arbitrary: acc rule: copy_loop.induct)
  case (1 rest fs raw_out)
  have rd: "file_read (1024 * 1024) rest = Inr (take 1048576 rest, drop 1048576 rest)"
    by (simp add: file_read_def)
  from "1.prems" have ne: "raw_out \<noteq> []"
    by (auto simp: node_at_def)
  show ?case
  proof (cases "rest = []")
    case True
    with "1.prems" show ?thesis
      by (subst copy_loop.simps) (simp add: file_read_def)
  next
    case False
    then have chunk: "take 1048576 rest \<noteq> []"
      by simp
    let ?fs1 = "append_file fs raw_out (take 1048576 rest)"
    have fs1: "?fs1 = put fs raw_out (File (acc @ take 1048576 rest))"
      using "1.prems" by (simp add: append_file_def)
    then have at: "node_at ?fs1 raw_out = Some (File (acc @ take 1048576 rest))"
      using ne by (simp add: node_at_put)
    from "1.hyps" [OF rd refl chunk at]
    obtain fs' where
      run: "copy_loop False (drop 1048576 rest) ?fs1 raw_out = (fs', None)" and
      res: "node_at fs' raw_out = Some (File ((acc @ take 1048576 rest) @ drop 1048576 rest))" and
      oth: "\<forall>q. q \<noteq> raw_out \<longrightarrow> node_at fs' q = node_at ?fs1 q"
      by blast
    have "copy_loop False rest fs raw_out = (fs', None)"
      using rd chunk run by (subst copy_loop.simps) simp
    moreover have "node_at fs' raw_out = Some (File (acc @ rest))"
      using res by simp
    moreover have "\<forall>q. q \<noteq> raw_out \<longrightarrow> node_at fs' q = node_at fs q"
      using oth fs1 ne by (simp add: node_at_put)
    ultimately show ?thesis
      by blast
  qed
qed

section \<open>Properties of paths\<close>

lemma startswith_iff: "startswith s pre \<longleftrightarrow> (\<exists>r. s = pre @ r)"
proof
  assume "startswith s pre"
  then have "s = pre @ drop (length pre) s"
    unfolding startswith_def by (metis append_take_drop_id)
  then show "\<exists>r. s = pre @ r" ..
next
  assume "\<exists>r. s = pre @ r"
  then show "startswith s pre"
    by (auto simp: startswith_def)
qed

lemma split_sep_nonempty: "split_sep s \<noteq> []"
  by (induction s) (auto split: list.splits)

lemma split_sep_no_slash: "c \<in> set (split_sep s) \<Longrightarrow> CHR ''/'' \<notin> set c"
proof (induction s arbitrary: c)
  case Nil
  then show ?case by simp
next
  case (Cons x xs)
  show ?case
  proof (cases "x = CHR ''/''")
    case True
    with Cons show ?thesis by auto
  next
    case False
    obtain w ws where sp: "split_sep xs = w # ws"
      using split_sep_nonempty [of xs] by (cases "split_sep xs") auto
    with Cons.prems False have "c = x # w \<or> c \<in> set ws"
      by simp
    then show ?thesis
    proof
      assume "c = x # w"
      moreover have "CHR ''/'' \<notin> set w"
        using Cons.IH [of w] sp by simp
      ultimately show ?thesis
        using False by simp
    next
      assume "c \<in> set ws"
      then show ?thesis
        using Cons.IH [of c] sp by simp
    qed
  qed
qed

lemma valid_parts: "valid_path (parts name)"
  by (auto simp: valid_path_def parts_def list_all_iff dest: split_sep_no_slash)

lemma valid_path_append: "valid_path (p @ q) \<longleftrightarrow> valid_path p \<and> valid_path q"
  by (simp add: valid_path_def)

lemma valid_path_butlast: "valid_path p \<Longrightarrow> valid_path (butlast p)"
  by (auto simp: valid_path_def list_all_iff dest: in_set_butlastD)

lemma valid_joinpath: "valid_path d \<Longrightarrow> valid_path (joinpath d name)"
  by (simp add: joinpath_def valid_parts valid_path_append)

lemma valid_foldl_resolve:
  "valid_path acc \<Longrightarrow> valid_path p \<Longrightarrow>
   valid_path (foldl (\<lambda>acc c. if c = ''..'' then butlast acc else acc @ [c]) acc p)"
proof (induction p arbitrary: acc)
  case Nil
  then show ?case by simp
next
  case (Cons c cs)
  from Cons.prems have "valid_path (if c = ''..'' then butlast acc else acc @ [c])"
    by (auto simp: valid_path_butlast valid_path_append) (simp add: valid_path_def)
  moreover from Cons.prems have "valid_path cs"
    by (simp add: valid_path_def)
  ultimately show ?case
    using Cons.IH by simp
qed

lemma valid_resolve: "valid_path p \<Longrightarrow> valid_path (resolve p)"
  unfolding resolve_def by (rule valid_foldl_resolve) (simp_all add: valid_path_def)

lemma slash_split:
  assumes eq: "a @ x = b @ y"
    and a: "CHR ''/'' \<notin> set a" and b: "CHR ''/'' \<notin> set b"
    and x: "x = [] \<or> hd x = CHR ''/''" and y: "y = [] \<or> hd y = CHR ''/''"
  shows "a = b \<and> x = y"
proof -
  have na: "\<forall>c \<in> set a. c \<noteq> CHR ''/''" and nb: "\<forall>c \<in> set b. c \<noteq> CHR ''/''"
    using a b by auto
  have ta: "takeWhile (\<lambda>c. c \<noteq> CHR ''/'') (a @ x) = a"
  proof (cases x)
    case Nil
    with na show ?thesis by (simp add: takeWhile_eq_all_conv)
  next
    case (Cons h t)
    with x have "h = CHR ''/''" by simp
    with Cons na show ?thesis by (simp add: takeWhile_append2)
  qed
  have tb: "takeWhile (\<lambda>c. c \<noteq> CHR ''/'') (b @ y) = b"
  proof (cases y)
    case Nil
    with nb show ?thesis by (simp add: takeWhile_eq_all_conv)
  next
    case (Cons h t)
    with y have "h = CHR ''/''" by simp
    with Cons nb show ?thesis by (simp add: takeWhile_append2)
  qed
  from ta tb eq have "a = b" by simp
  with eq show ?thesis by simp
qed

lemma slashed_head: "concat (map (\<lambda>c. CHR ''/'' # c) p) = [] \<or> hd (concat (map (\<lambda>c. CHR ''/'' # c) p)) = CHR ''/''"
  by (cases p) simp_all

lemma slashed_prefix:
  assumes "valid_path d" and "valid_path t"
    and "concat (map (\<lambda>c. CHR ''/'' # c) t) = concat (map (\<lambda>c. CHR ''/'' # c) d) @ CHR ''/'' # rest"
  shows "\<exists>r. t = d @ r \<and> r \<noteq> []"
  using assms
proof (induction d arbitrary: t)
  case Nil
  then show ?case by (cases t) auto
next
  case (Cons c ds)
  let ?S = "\<lambda>p. concat (map (\<lambda>c. CHR ''/'' # c) p)"
  from Cons.prems(3) obtain c' ts where t: "t = c' # ts"
    by (cases t) auto
  with Cons.prems(3) have eq: "c' @ ?S ts = c @ (?S ds @ CHR ''/'' # rest)"
    by simp
  have c: "CHR ''/'' \<notin> set c" and c': "CHR ''/'' \<notin> set c'"
    using Cons.prems(1,2) t by (simp_all add: valid_path_def)
  have "?S ds @ CHR ''/'' # rest = [] \<or> hd (?S ds @ CHR ''/'' # rest) = CHR ''/''"
    using slashed_head [of ds] by (cases "?S ds") auto
  with eq c c' slashed_head [of ts]
  have "c' = c \<and> ?S ts = ?S ds @ CHR ''/'' # rest"
    by (intro slash_split) auto
  moreover have "valid_path ds" "valid_path ts"
    using Cons.prems(1,2) t by (simp_all add: valid_path_def)
  ultimately obtain r where "ts = ds @ r" "r \<noteq> []"
    using Cons.IH [of ts] by blast
  with t \<open>c' = c \<and> _\<close> show ?case
    by simp
qed

lemma str_path_startswith_prefix:
  assumes d: "valid_path d" and t: "valid_path t"
    and sw: "startswith (str_path t) (str_path d @ os_sep)"
  shows "strict_prefix d t"
proof -
  from sw obtain rest where eq: "str_path t = str_path d @ CHR ''/'' # rest"
    by (auto simp: startswith_iff os_sep_def)
  show ?thesis
  proof (cases "d = []")
    case True
    with eq have e2: "str_path t = CHR ''/'' # CHR ''/'' # rest"
      by (simp add: str_path_def)
    show ?thesis
    proof (cases t)
      case Nil
      with e2 show ?thesis by (simp add: str_path_def)
    next
      case (Cons c cs)
      with t have "c \<noteq> []" "CHR ''/'' \<notin> set c"
        by (simp_all add: valid_path_def)
      with e2 Cons show ?thesis
        by (cases c) (auto simp: str_path_def)
    qed
  next
    case False
    show ?thesis
    proof (cases "t = []")
      case True
      with eq False show ?thesis
        by (cases d) (auto simp: str_path_def)
    next
      case tne: False
      with eq False have "concat (map (\<lambda>c. CHR ''/'' # c) t)
          = concat (map (\<lambda>c. CHR ''/'' # c) d) @ CHR ''/'' # rest"
        by (simp add: str_path_def)
      with d t obtain r where "t = d @ r" "r \<noteq> []"
        using slashed_prefix by blast
      then show ?thesis
        by (auto simp: strict_prefix_def prefix_def)
    qed
  qed
qed

lemma str_path_not_startswith_self: "\<not> startswith (str_path p) (str_path p @ os_sep)"
  by (simp add: startswith_def os_sep_def)

lemma foldl_resolve_normalized:
  "normalized p \<Longrightarrow>
   foldl (\<lambda>acc c. if c = ''..'' then butlast acc else acc @ [c]) acc p = acc @ p"
  by (induction p arbitrary: acc) (auto simp: normalized_def)

lemma resolve_normalized: "normalized p \<Longrightarrow> resolve p = p"
  by (simp add: resolve_def foldl_resolve_normalized)

lemma normalized_valid: "normalized p \<Longrightarrow> valid_path p"
  by (auto simp: normalized_def valid_path_def list_all_iff)

section \<open>Properties of extract_tar_xz\<close>

lemma check_members_None_iff:
  "check_members d ms = None \<longleftrightarrow>
   (\<forall>m \<in> set ms. startswith (str_path (resolve (joinpath d (mname m))))
                             (str_path (resolve d) @ os_sep))"
  by (induction ms) (auto simp: Let_def)

lemma check_members_Some_mem: "check_members d ms = Some n \<Longrightarrow> n \<in> mname ` set ms"
  by (induction ms) (auto simp: Let_def split: if_splits)

lemma extract_blocked:
  assumes "mkdir_p fs d = Inr fs1" and "node_at fs a = Some (File bs)"
    and "tar_open cd bs = TarMembers ms" and "check_members d ms = Some n"
  shows "extract_tar_xz cd fs a d = (fs1, Inl (PathTraversal n))"
proof -
  have "node_at fs1 a = Some (File bs)"
    using assms(1,2) by (rule mkdir_p_keeps)
  then have "tar_attempt cd fs1 a d = (fs1, Inl (PathTraversal n))"
    using assms(3,4) by (simp add: tar_attempt_def open_rb_def)
  with assms(1) show ?thesis
    by (simp add: extract_tar_xz_def)
qed

lemma outside_fails_check:
  assumes "normalized d"
    and "\<not> prefix (resolve d) (resolve (joinpath d name))"
  shows "\<not> startswith (str_path (resolve (joinpath d name))) (str_path (resolve d) @ os_sep)"
proof
  assume sw: "startswith (str_path (resolve (joinpath d name))) (str_path (resolve d) @ os_sep)"
  have vd: "valid_path d"
    using assms(1) by (rule normalized_valid)
  then have "valid_path (resolve d)" and "valid_path (resolve (joinpath d name))"
    by (simp_all add: valid_resolve valid_joinpath)
  then have "strict_prefix (resolve d) (resolve (joinpath d name))"
    using sw by (rule str_path_startswith_prefix)
  with assms(2) show False
    by (simp add: strict_prefix_def)
qed

text \<open>
  C1. When the archive opens as a tar container and some member's resolved target lies
  outside the destination directory, \<open>extract_tar_xz\<close> raises the path-traversal
  exception for one of the members, and the file system it leaves is the one after
  the creation of the destination directory: the regular files are the ones there were.
\<close>

theorem extract_tar_xz_blocks_traversal:
  assumes "normalized dest_dir"
    and "mkdir_p fs dest_dir = Inr fs1"
    and "node_at fs archive_path = Some (File bs)"
    and "tar_open cd bs = TarMembers ms"
    and "\<exists>m \<in> set ms. \<not> prefix (resolve dest_dir) (resolve (joinpath dest_dir (mname m)))"
  shows "\<exists>n \<in> mname ` set ms.
           extract_tar_xz cd fs archive_path dest_dir = (fs1, Inl (PathTraversal n))
         \<and> (\<forall>q b. node_at fs1 q = Some (File b) \<longleftrightarrow> node_at fs q = Some (File b))"
proof -
  from assms(5) obtain m where m: "m \<in> set ms"
    and out: "\<not> prefix (resolve dest_dir) (resolve (joinpath dest_dir (mname m)))"
    by blast
  from assms(1) out
  have "\<not> startswith (str_path (resolve (joinpath dest_dir (mname m))))
            (str_path (resolve dest_dir) @ os_sep)"
    by (rule outside_fails_check)
  with m have "check_members dest_dir ms \<noteq> None"
    by (auto simp: check_members_None_iff)
  then obtain n where n: "check_members dest_dir ms = Some n"
    by blast
  have "extract_tar_xz cd fs archive_path dest_dir = (fs1, Inl (PathTraversal n))"
    using assms(2,3,4) n by (rule extract_blocked)
  moreover have "n \<in> mname ` set ms"
    using n by (rule check_members_Some_mem)
  moreover have "\<forall>q b. node_at fs1 q = Some (File b) \<longleftrightarrow> node_at fs q = Some (File b)"
    using mkdir_p_files [OF assms(2)] by blast
  ultimately show ?thesis
    by blast
qed

lemma ex_mkdir_out: "mkdir_p [([''src'', ''x.tar.xz''], File [1]), ([''src''], Dir)] [''out'']
    = Inr [([''out''], Dir), ([''src'', ''x.tar.xz''], File [1]), ([''src''], Dir)]"
  by (simp add: mkdir_p_def node_at_def put_def)

lemma ex_resolve_dotdot: "resolve (joinpath [''out''] ''../b.txt'') = [''b.txt'']"
  by code_simp

lemma ex_resolve_dot: "resolve (joinpath [''out''] ''.'') = [''out'']"
  by code_simp

lemma ex_normalized_out: "normalized [''out'']"
  by (simp add: normalized_def)

lemma ex_resolve_out: "resolve [''out''] = [''out'']"
  using ex_normalized_out by (rule resolve_normalized)

theorem extract_tar_xz_blocks_traversal_witness:
  "normalized [''out'']
   \<and> mkdir_p [([''src'', ''x.tar.xz''], File [1]), ([''src''], Dir)] [''out'']
       = Inr [([''out''], Dir), ([''src'', ''x.tar.xz''], File [1]), ([''src''], Dir)]
   \<and> \<not> prefix (resolve [''out'']) (resolve (joinpath [''out''] ''../b.txt''))
   \<and> extract_tar_xz
        (table_codec [([1], [Member ''a.txt'' (Regular [7]), Member ''../b.txt'' (Regular [8])])] [])
        [([''src'', ''x.tar.xz''], File [1]), ([''src''], Dir)] [''src'', ''x.tar.xz''] [''out'']
      = ([([''out''], Dir), ([''src'', ''x.tar.xz''], File [1]), ([''src''], Dir)],
         Inl (PathTraversal ''../b.txt''))"
proof -
  let ?ms = "[Member ''a.txt'' (Regular [7]), Member ''../b.txt'' (Regular [8])]"
  let ?cd = "table_codec [([1], ?ms)] []"
  let ?fs = "[([''src'', ''x.tar.xz''], File [1]), ([''src''], Dir)]"
  have at: "node_at ?fs [''src'', ''x.tar.xz''] = Some (File [1])"
    by (simp add: node_at_def)
  have tar: "tar_open ?cd [1] = TarMembers ?ms"
    by (simp add: table_codec_def)
  have np: "\<not> prefix (resolve [''out'']) (resolve (joinpath [''out''] ''../b.txt''))"
    by (simp add: ex_resolve_out ex_resolve_dotdot)
  then have ex: "\<exists>m \<in> set ?ms. \<not> prefix (resolve [''out'']) (resolve (joinpath [''out''] (mname m)))"
    by simp
  from extract_tar_xz_blocks_traversal [OF ex_normalized_out ex_mkdir_out at tar ex]
  obtain n where n: "n \<in> mname ` set ?ms"
    and r: "extract_tar_xz ?cd ?fs [''src'', ''x.tar.xz''] [''out'']
            = ([([''out''], Dir), ([''src'', ''x.tar.xz''], File [1]), ([''src''], Dir)],
               Inl (PathTraversal n))"
    by blast
  have "check_members [''out''] ?ms = Some ''../b.txt''"
    by code_simp
  then have "extract_tar_xz ?cd ?fs [''src'', ''x.tar.xz''] [''out'']
            = ([([''out''], Dir), ([''src'', ''x.tar.xz''], File [1]), ([''src''], Dir)],
               Inl (PathTraversal ''../b.txt''))"
    using extract_blocked [OF ex_mkdir_out at tar] by simp
  with r ex_normalized_out ex_mkdir_out np show ?thesis
    by simp
qed

text \<open>
  C9. A call on an archive that opens as a tar container returns normally only if every
  member's resolved target starts with the resolved destination followed by the
  separator. A member whose resolved target is the destination itself, such as one
  named \<open>.\<close>, therefore makes the call raise the path-traversal exception.
\<close>

theorem extract_tar_xz_rejects_destination_itself:
  assumes "mkdir_p fs dest_dir = Inr fs1"
    and "node_at fs archive_path = Some (File bs)"
    and "tar_open cd bs = TarMembers ms"
  shows "(snd (extract_tar_xz cd fs archive_path dest_dir) = Inr kind \<longrightarrow>
           (\<forall>m \<in> set ms. startswith (str_path (resolve (joinpath dest_dir (mname m))))
                                     (str_path (resolve dest_dir) @ os_sep)))
       \<and> ((\<exists>m \<in> set ms. resolve (joinpath dest_dir (mname m)) = resolve dest_dir) \<longrightarrow>
           (\<exists>n \<in> mname ` set ms.
              extract_tar_xz cd fs archive_path dest_dir = (fs1, Inl (PathTraversal n))))"
proof (intro conjI impI)
  assume ok: "snd (extract_tar_xz cd fs archive_path dest_dir) = Inr kind"
  have "check_members dest_dir ms = None"
  proof (cases "check_members dest_dir ms")
    case None
    then show ?thesis .
  next
    case (Some n)
    with assms have "extract_tar_xz cd fs archive_path dest_dir = (fs1, Inl (PathTraversal n))"
      by (rule extract_blocked)
    with ok show ?thesis by simp
  qed
  then show "\<forall>m \<in> set ms. startswith (str_path (resolve (joinpath dest_dir (mname m))))
                                     (str_path (resolve dest_dir) @ os_sep)"
    by (simp add: check_members_None_iff)
next
  assume "\<exists>m \<in> set ms. resolve (joinpath dest_dir (mname m)) = resolve dest_dir"
  then obtain m where m: "m \<in> set ms"
    and eq: "resolve (joinpath dest_dir (mname m)) = resolve dest_dir"
    by blast
  have "\<not> startswith (str_path (resolve (joinpath dest_dir (mname m))))
            (str_path (resolve dest_dir) @ os_sep)"
    unfolding eq by (rule str_path_not_startswith_self)
  with m have "check_members dest_dir ms \<noteq> None"
    by (auto simp: check_members_None_iff)
  then obtain n where n: "check_members dest_dir ms = Some n"
    by blast
  with assms have "extract_tar_xz cd fs archive_path dest_dir = (fs1, Inl (PathTraversal n))"
    by (rule extract_blocked)
  moreover have "n \<in> mname ` set ms"
    using n by (rule check_members_Some_mem)
  ultimately show "\<exists>n \<in> mname ` set ms.
      extract_tar_xz cd fs archive_path dest_dir = (fs1, Inl (PathTraversal n))"
    by blast
qed

lemma ex_tarxz_ok:
  "extract_tar_xz (table_codec [([1], [Member ''a.txt'' (Regular [7])])] [])
     [([''src'', ''x.tar.xz''], File [1]), ([''src''], Dir)] [''src'', ''x.tar.xz''] [''out'']
   = ([([''out'', ''a.txt''], File [7]), ([''out'', ''a.txt''], File []), ([''out''], Dir),
       ([''src'', ''x.tar.xz''], File [1]), ([''src''], Dir)], Inr ''tarxz'')"
  by code_simp

theorem extract_tar_xz_rejects_destination_itself_witness:
  "snd (extract_tar_xz (table_codec [([1], [Member ''a.txt'' (Regular [7])])] [])
          [([''src'', ''x.tar.xz''], File [1]), ([''src''], Dir)] [''src'', ''x.tar.xz''] [''out''])
     = Inr ''tarxz''
   \<and> startswith (str_path (resolve (joinpath [''out''] ''a.txt''))) (str_path (resolve [''out'']) @ os_sep)
   \<and> resolve (joinpath [''out''] ''.'') = resolve [''out'']
   \<and> extract_tar_xz (table_codec [([1], [Member ''.'' Directory, Member ''a.txt'' (Regular [7])])] [])
        [([''src'', ''x.tar.xz''], File [1]), ([''src''], Dir)] [''src'', ''x.tar.xz''] [''out'']
      = ([([''out''], Dir), ([''src'', ''x.tar.xz''], File [1]), ([''src''], Dir)],
         Inl (PathTraversal ''.''))"
proof -
  let ?fs = "[([''src'', ''x.tar.xz''], File [1]), ([''src''], Dir)]"
  let ?ms1 = "[Member ''a.txt'' (Regular [7])]"
  let ?ms2 = "[Member ''.'' Directory, Member ''a.txt'' (Regular [7])]"
  have at: "node_at ?fs [''src'', ''x.tar.xz''] = Some (File [1])"
    by (simp add: node_at_def)
  have tar1: "tar_open (table_codec [([1], ?ms1)] []) [1] = TarMembers ?ms1"
    by (simp add: table_codec_def)
  have tar2: "tar_open (table_codec [([1], ?ms2)] []) [1] = TarMembers ?ms2"
    by (simp add: table_codec_def)
  have ok: "snd (extract_tar_xz (table_codec [([1], ?ms1)] []) ?fs [''src'', ''x.tar.xz''] [''out''])
      = Inr ''tarxz''"
    by (simp add: ex_tarxz_ok)
  have dot: "resolve (joinpath [''out''] ''.'') = resolve [''out'']"
    by (simp add: ex_resolve_dot ex_resolve_out)
  have 1: "startswith (str_path (resolve (joinpath [''out''] ''a.txt'')))
             (str_path (resolve [''out'']) @ os_sep)"
    using extract_tar_xz_rejects_destination_itself
      [OF ex_mkdir_out at tar1, of "''tarxz''"] ok
    by simp
  have "\<exists>m \<in> set ?ms2. resolve (joinpath [''out''] (mname m)) = resolve [''out'']"
    using dot by simp
  with extract_tar_xz_rejects_destination_itself [OF ex_mkdir_out at tar2, of "''tarxz''"]
  obtain n where "n \<in> mname ` set ?ms2"
    and r: "extract_tar_xz (table_codec [([1], ?ms2)] []) ?fs [''src'', ''x.tar.xz''] [''out'']
            = ([([''out''], Dir), ([''src'', ''x.tar.xz''], File [1]), ([''src''], Dir)],
               Inl (PathTraversal n))"
    by blast
  have "check_members [''out''] ?ms2 = Some ''.''"
    by code_simp
  then have "extract_tar_xz (table_codec [([1], ?ms2)] []) ?fs [''src'', ''x.tar.xz''] [''out'']
            = ([([''out''], Dir), ([''src'', ''x.tar.xz''], File [1]), ([''src''], Dir)],
               Inl (PathTraversal ''.''))"
    using extract_blocked [OF ex_mkdir_out at tar2] by simp
  with ok 1 dot r show ?thesis
    by simp
qed

lemma tar_attempt_keeps_dir:
  "is_dir fs q \<Longrightarrow> is_dir (fst (tar_attempt cd fs a d)) q"
proof -
  assume q: "is_dir fs q"
  have "\<And>ms. is_dir (fst (extractall fs d ms)) q"
    using q by (rule extractall_keeps_dir)
  then show ?thesis
    using q
    by (auto simp: tar_attempt_def split: sum.splits tar_result.splits option.splits prod.splits)
       (metis fst_conv)+
qed

lemma raw_attempt_keeps_dir:
  "is_dir fs q \<Longrightarrow> is_dir (fst (raw_attempt cd fs a d)) q"
proof -
  assume q: "is_dir fs q"
  have "\<And>fs1 c rest out. is_dir fs1 q \<Longrightarrow> is_dir (fst (copy_loop c rest fs1 out)) q"
    by (rule copy_loop_keeps_dir)
  then have cl: "\<And>fs1 c rest out fs2 r. is_dir fs1 q \<Longrightarrow> copy_loop c rest fs1 out = (fs2, r) \<Longrightarrow> is_dir fs2 q"
    by (metis fst_conv)
  show ?thesis
    using q
    by (auto simp: raw_attempt_def Let_def
        split: sum.splits xz_result.splits option.splits prod.splits
        dest: open_wb_keeps_dir cl)
qed

lemma extract_tar_xz_keeps_dir:
  "mkdir_p fs d = Inr fs1 \<Longrightarrow> is_dir fs1 q \<Longrightarrow> is_dir (fst (extract_tar_xz cd fs a d)) q"
proof -
  assume mk: "mkdir_p fs d = Inr fs1" and q: "is_dir fs1 q"
  obtain fs2 r where ta: "tar_attempt cd fs1 a d = (fs2, r)"
    by (cases "tar_attempt cd fs1 a d")
  have d2: "is_dir fs2 q"
    using tar_attempt_keeps_dir [OF q, of cd a d] ta by simp
  show ?thesis
  proof (cases r)
    case (Inr kind)
    with mk ta d2 show ?thesis
      by (simp add: extract_tar_xz_def)
  next
    case (Inl e)
    show ?thesis
    proof (cases "e = TarReadError")
      case True
      with mk ta Inl raw_attempt_keeps_dir [OF d2, of cd a d] show ?thesis
        by (simp add: extract_tar_xz_def)
    next
      case False
      with mk ta Inl d2 show ?thesis
        by (simp add: extract_tar_xz_def)
    qed
  qed
qed

text \<open>
  C10 (as amended). \<open>extract_tar_xz\<close> first creates the destination directory with its
  missing parents. When that creation raises, because the destination or one of its
  ancestors exists and is not a directory, the call raises the same exception and the
  file system is unchanged. Otherwise the destination is a directory after the call,
  whatever the call returns or raises afterwards.
\<close>

theorem extract_tar_xz_creates_destination:
  "(mkdir_p fs dest_dir = Inr fs1 \<longrightarrow>
      is_dir (fst (extract_tar_xz cd fs archive_path dest_dir)) dest_dir)
   \<and> (mkdir_p fs dest_dir = Inl e \<longrightarrow>
      extract_tar_xz cd fs archive_path dest_dir = (fs, Inl e))"
proof (intro conjI impI)
  assume mk: "mkdir_p fs dest_dir = Inr fs1"
  then have "is_dir fs1 dest_dir"
    by (rule mkdir_p_is_dir)
  with mk show "is_dir (fst (extract_tar_xz cd fs archive_path dest_dir)) dest_dir"
    by (rule extract_tar_xz_keeps_dir)
next
  assume "mkdir_p fs dest_dir = Inl e"
  then show "extract_tar_xz cd fs archive_path dest_dir = (fs, Inl e)"
    by (simp add: extract_tar_xz_def)
qed

lemma ex_mkdir_blocked: "mkdir_p [([''out''], File [])] [''out''] = Inl FileExistsError"
  by (simp add: mkdir_p_def node_at_def)

theorem extract_tar_xz_creates_destination_witness:
  "mkdir_p [([''src'', ''x.tar.xz''], File [1]), ([''src''], Dir)] [''out'']
       = Inr [([''out''], Dir), ([''src'', ''x.tar.xz''], File [1]), ([''src''], Dir)]
   \<and> is_dir (fst (extract_tar_xz (table_codec [] [])
         [([''src'', ''x.tar.xz''], File [1]), ([''src''], Dir)] [''src'', ''x.tar.xz''] [''out'']))
        [''out'']
   \<and> mkdir_p [([''out''], File [])] [''out''] = Inl FileExistsError
   \<and> extract_tar_xz (table_codec [] []) [([''out''], File [])] [''src'', ''x.tar.xz''] [''out'']
       = ([([''out''], File [])], Inl FileExistsError)"
  using ex_mkdir_out ex_mkdir_blocked
    extract_tar_xz_creates_destination
      [of "[([''src'', ''x.tar.xz''], File [1]), ([''src''], Dir)]" "[''out'']"
          "[([''out''], Dir), ([''src'', ''x.tar.xz''], File [1]), ([''src''], Dir)]"
          "table_codec [] []" "[''src'', ''x.tar.xz'']" FileExistsError]
    extract_tar_xz_creates_destination
      [of "[([''out''], File [])]" "[''out'']" "[]"
          "table_codec [] []" "[''src'', ''x.tar.xz'']" FileExistsError]
  by simp

text \<open>
  C10 as stated fails: when the destination path is an existing regular file, the
  call raises \<open>FileExistsError\<close> and the destination is not a directory afterwards.
\<close>

theorem extract_tar_xz_destination_counterexample:
  "extract_tar_xz (table_codec [] []) [([''out''], File [])] [''src'', ''x.tar.xz''] [''out'']
       = ([([''out''], File [])], Inl FileExistsError)
   \<and> \<not> is_dir (fst (extract_tar_xz (table_codec [] []) [([''out''], File [])]
                       [''src'', ''x.tar.xz''] [''out''])) [''out'']"
  by (simp add: extract_tar_xz_def ex_mkdir_blocked is_dir_def node_at_def)

lemma split_sep_plain: "CHR ''/'' \<notin> set s \<Longrightarrow> split_sep s = [s]"
  by (induction s) auto

lemma joinpath_plain_name:
  assumes "normalized d" and "normalized [name]"
  shows "resolve (joinpath d name) = d @ [name]"
proof -
  from assms(2) have ne: "name \<noteq> []" and ns: "CHR ''/'' \<notin> set name" and nd: "name \<noteq> ''.''"
    by (simp_all add: normalized_def)
  from ne ns have "\<not> is_absolute name"
    by (cases name) (auto simp: is_absolute_def)
  moreover have "parts name = [name]"
    using ne ns nd by (simp add: parts_def split_sep_plain)
  ultimately have "joinpath d name = d @ [name]"
    by (simp add: joinpath_def)
  moreover have "normalized (d @ [name])"
    using assms by (simp add: normalized_def)
  ultimately show ?thesis
    by (simp add: resolve_normalized)
qed

lemma raw_fallback_result:
  assumes d: "normalized dest_dir"
    and mk: "mkdir_p fs dest_dir = Inr fs1"
    and at: "node_at fs archive_path = Some (File bs)"
    and tar: "tar_open cd bs = TarRaises TarReadError"
    and xz: "xz_read cd bs = XzData payload"
    and out: "raw_out_name (name_of archive_path) = out" "normalized [out]"
    and diff: "archive_path \<noteq> dest_dir @ [out]"
    and nodir: "node_at fs (dest_dir @ [out]) \<noteq> Some Dir"
  shows "\<exists>fs'. extract_tar_xz cd fs archive_path dest_dir = (fs', Inr ''rawxz'')
           \<and> node_at fs' (dest_dir @ [out]) = Some (File payload)
           \<and> (\<forall>q. q \<noteq> dest_dir @ [out] \<longrightarrow> node_at fs' q = node_at fs1 q)"
proof -
  let ?raw = "dest_dir @ [out]"
  have at1: "node_at fs1 archive_path = Some (File bs)"
    using mk at by (rule mkdir_p_keeps)
  then have op: "open_rb fs1 archive_path = Inr bs"
    by (simp add: open_rb_def)
  then have ta: "tar_attempt cd fs1 archive_path dest_dir = (fs1, Inl TarReadError)"
    using tar by (simp add: tar_attempt_def)
  have raw: "resolve (joinpath dest_dir (raw_out_name (name_of archive_path))) = ?raw"
    using d out by (simp add: joinpath_plain_name)
  have "node_at fs1 ?raw = node_at fs ?raw"
    using mk by (rule mkdir_p_longer_unchanged) simp
  with nodir have nd1: "node_at fs1 ?raw \<noteq> Some Dir"
    by simp
  have "is_dir fs1 dest_dir"
    using mk by (rule mkdir_p_is_dir)
  then have par: "node_at fs1 (butlast ?raw) = Some Dir"
    by (simp add: is_dir_def)
  let ?fs2 = "put fs1 ?raw (File [])"
  have ow: "open_wb fs1 ?raw = Inr ?fs2"
    using nd1 par by (auto simp: open_wb_def split: option.splits node.splits)
  have at2: "node_at ?fs2 archive_path = Some (File bs)"
    using at1 diff by (simp add: node_at_put)
  then have op2: "open_rb ?fs2 archive_path = Inr bs"
    by (simp add: open_rb_def)
  have "node_at ?fs2 ?raw = Some (File [])"
    by (simp add: node_at_put)
  from copy_loop_sound [OF this, of payload]
  obtain fs' where run: "copy_loop False payload ?fs2 ?raw = (fs', None)"
    and res: "node_at fs' ?raw = Some (File payload)"
    and oth: "\<forall>q. q \<noteq> ?raw \<longrightarrow> node_at fs' q = node_at ?fs2 q"
    by auto
  have "raw_attempt cd fs1 archive_path dest_dir = (fs', Inr ''rawxz'')"
    unfolding raw_attempt_def raw Let_def
    by (simp add: op ow op2 xz run)
  then have "extract_tar_xz cd fs archive_path dest_dir = (fs', Inr ''rawxz'')"
    using mk ta by (simp add: extract_tar_xz_def)
  moreover have "\<forall>q. q \<noteq> ?raw \<longrightarrow> node_at fs' q = node_at fs1 q"
    using oth by (simp add: node_at_put)
  ultimately show ?thesis
    using res by blast
qed

lemma raw_out_name_payload: "raw_out_name ''payload.tar.xz'' = ''payload''"
  by code_simp

lemma normalized_payload: "normalized [''payload'']"
  by (simp add: normalized_def)

text \<open>
  C4 (as amended). For a file named \<open>payload.tar.xz\<close> that is an xz stream but not a
  tar stream, with a destination directory that can be created and in which no
  directory named \<open>payload\<close> stands, \<open>extract_tar_xz\<close> falls back to the raw mode and
  writes exactly one file: \<open>payload\<close> in the destination directory, holding the
  decompressed bytes. Both suffixes are stripped from the name.
\<close>

theorem extract_tar_xz_raw_fallback:
  assumes "normalized dest_dir"
    and "mkdir_p fs dest_dir = Inr fs1"
    and "node_at fs archive_path = Some (File bs)"
    and "name_of archive_path = ''payload.tar.xz''"
    and "tar_open cd bs = TarRaises TarReadError"
    and "xz_read cd bs = XzData payload"
    and "node_at fs (dest_dir @ [''payload'']) \<noteq> Some Dir"
  shows "\<exists>fs'. extract_tar_xz cd fs archive_path dest_dir = (fs', Inr ''rawxz'')
           \<and> node_at fs' (dest_dir @ [''payload'']) = Some (File payload)
           \<and> (\<forall>q. q \<noteq> dest_dir @ [''payload''] \<longrightarrow> node_at fs' q = node_at fs1 q)"
proof -
  have out: "raw_out_name (name_of archive_path) = ''payload''"
    using assms(4) by (simp add: raw_out_name_payload)
  have "archive_path \<noteq> dest_dir @ [''payload'']"
  proof
    assume "archive_path = dest_dir @ [''payload'']"
    then have "name_of archive_path = ''payload''"
      by (simp add: name_of_def)
    with assms(4) show False by simp
  qed
  with assms(1,2,3,5,6) out normalized_payload show ?thesis
    using assms(7) by (rule raw_fallback_result)
qed

lemma ex_mkdir_out_payload:
  "mkdir_p [([''src'', ''payload.tar.xz''], File [1]), ([''src''], Dir)] [''out'']
    = Inr [([''out''], Dir), ([''src'', ''payload.tar.xz''], File [1]), ([''src''], Dir)]"
  by (simp add: mkdir_p_def node_at_def put_def)

theorem extract_tar_xz_raw_fallback_witness:
  "normalized [''out'']
   \<and> mkdir_p [([''src'', ''payload.tar.xz''], File [1]), ([''src''], Dir)] [''out'']
       = Inr [([''out''], Dir), ([''src'', ''payload.tar.xz''], File [1]), ([''src''], Dir)]
   \<and> name_of [''src'', ''payload.tar.xz''] = ''payload.tar.xz''
   \<and> tar_open (table_codec [] [([1], [5, 6])]) [1] = TarRaises TarReadError
   \<and> xz_read (table_codec [] [([1], [5, 6])]) [1] = XzData [5, 6]
   \<and> (\<exists>fs'. extract_tar_xz (table_codec [] [([1], [5, 6])])
                [([''src'', ''payload.tar.xz''], File [1]), ([''src''], Dir)]
                [''src'', ''payload.tar.xz''] [''out''] = (fs', Inr ''rawxz'')
            \<and> node_at fs' [''out'', ''payload''] = Some (File [5, 6])
            \<and> node_at fs' [''out'', ''payload.tar''] = None)"
proof -
  let ?fs = "[([''src'', ''payload.tar.xz''], File [1]), ([''src''], Dir)]"
  let ?fs1 = "[([''out''], Dir), ([''src'', ''payload.tar.xz''], File [1]), ([''src''], Dir)]"
  let ?cd = "table_codec [] [([1], [5, 6])]"
  have at: "node_at ?fs [''src'', ''payload.tar.xz''] = Some (File [1])"
    by (simp add: node_at_def)
  have nm: "name_of [''src'', ''payload.tar.xz''] = ''payload.tar.xz''"
    by (simp add: name_of_def)
  have tar: "tar_open ?cd [1] = TarRaises TarReadError"
    by (simp add: table_codec_def)
  have xz: "xz_read ?cd [1] = XzData [5, 6]"
    by (simp add: table_codec_def)
  have nodir: "node_at ?fs ([''out''] @ [''payload'']) \<noteq> Some Dir"
    by (simp add: node_at_def)
  from extract_tar_xz_raw_fallback [OF ex_normalized_out ex_mkdir_out_payload at nm tar xz nodir]
  obtain fs' where r: "extract_tar_xz ?cd ?fs [''src'', ''payload.tar.xz''] [''out''] = (fs', Inr ''rawxz'')"
    and f: "node_at fs' ([''out''] @ [''payload'']) = Some (File [5, 6])"
    and o: "\<forall>q. q \<noteq> [''out''] @ [''payload''] \<longrightarrow> node_at fs' q = node_at ?fs1 q"
    by blast
  from o have "node_at fs' [''out'', ''payload.tar''] = node_at ?fs1 [''out'', ''payload.tar'']"
    by simp
  then have "node_at fs' [''out'', ''payload.tar''] = None"
    by (simp add: node_at_def)
  with r f ex_normalized_out ex_mkdir_out_payload nm tar xz show ?thesis
    by auto
qed

text \<open>
  C4 as stated fails: on a raw stream named \<open>payload.tar.xz\<close> the call succeeds in
  the raw mode, but no file \<open>payload.tar\<close> exists afterwards; the bytes are in
  \<open>payload\<close>.
\<close>

theorem extract_tar_xz_payload_tar_counterexample:
  "snd (extract_tar_xz (table_codec [] [([1], [5, 6])])
          [([''src'', ''payload.tar.xz''], File [1]), ([''src''], Dir)]
          [''src'', ''payload.tar.xz''] [''out'']) = Inr ''rawxz''
   \<and> node_at (fst (extract_tar_xz (table_codec [] [([1], [5, 6])])
          [([''src'', ''payload.tar.xz''], File [1]), ([''src''], Dir)]
          [''src'', ''payload.tar.xz''] [''out''])) [''out'', ''payload.tar''] = None
   \<and> node_at (fst (extract_tar_xz (table_codec [] [([1], [5, 6])])
          [([''src'', ''payload.tar.xz''], File [1]), ([''src''], Dir)]
          [''src'', ''payload.tar.xz''] [''out''])) [''out'', ''payload''] = Some (File [5, 6])"
proof -
  let ?fs = "[([''src'', ''payload.tar.xz''], File [1]), ([''src''], Dir)]"
  let ?fs1 = "[([''out''], Dir), ([''src'', ''payload.tar.xz''], File [1]), ([''src''], Dir)]"
  let ?cd = "table_codec [] [([1], [5, 6])]"
  have at: "node_at ?fs [''src'', ''payload.tar.xz''] = Some (File [1])"
    by (simp add: node_at_def)
  have out: "raw_out_name (name_of [''src'', ''payload.tar.xz'']) = ''payload''"
    by (simp add: name_of_def raw_out_name_payload)
  have tar: "tar_open ?cd [1] = TarRaises TarReadError"
    by (simp add: table_codec_def)
  have xz: "xz_read ?cd [1] = XzData [5, 6]"
    by (simp add: table_codec_def)
  have diff: "[''src'', ''payload.tar.xz''] \<noteq> [''out''] @ [''payload'']"
    by simp
  have nodir: "node_at ?fs ([''out''] @ [''payload'']) \<noteq> Some Dir"
    by (simp add: node_at_def)
  from raw_fallback_result
    [OF ex_normalized_out ex_mkdir_out_payload at tar xz out normalized_payload diff nodir]
  obtain fs' where r: "extract_tar_xz ?cd ?fs [''src'', ''payload.tar.xz''] [''out''] = (fs', Inr ''rawxz'')"
    and f: "node_at fs' ([''out''] @ [''payload'']) = Some (File [5, 6])"
    and o: "\<forall>q. q \<noteq> [''out''] @ [''payload''] \<longrightarrow> node_at fs' q = node_at ?fs1 q"
    by blast
  from o have "node_at fs' [''out'', ''payload.tar''] = node_at ?fs1 [''out'', ''payload.tar'']"
    by simp
  then have "node_at fs' [''out'', ''payload.tar''] = None"
    by (simp add: node_at_def)
  with r f show ?thesis
    by simp
qed

section \<open>Properties of process_top_level and process\<close>

lemma read_expected_cong:
  "open_rb fs p = open_rb fs' p \<Longrightarrow> read_expected_sha256 cd fs p = read_expected_sha256 cd fs' p"
  by (simp add: read_expected_sha256_def read_expected_body_def)




lemma sha256_file_regular:
  "node_at fs p = Some (File bs) \<Longrightarrow> sha256_file fs p 1048576 = Inr (sha256_hex bs)"
  using sha256_loop_positive [of 1048576 bs sha256_new]
  by (simp add: sha256_file_def open_rb_def hexdigest_def sha256_new_def)

lemma name_of_snoc: "name_of (p @ [n]) = n"
  by (simp add: name_of_def)





text \<open>
  C8. \<open>process\<close> passes no checksum directory: whenever the top-level archive exists,
  whatever else the source directory holds, \<open>process\<close> goes straight to
  \<open>extract_tar_xz\<close>. It returns 1 exactly when that extraction raises, and otherwise
  goes on to the subdirectories; no checksum is read and the checksum-failure exit is
  never taken.
\<close>

theorem process_skips_top_level_verification:
  assumes "mkdir_p (files st) dest_dir = Inr fs1"
    and "exists_path fs1 (src_dir @ [name])"
  shows "process cd src_dir dest_dir name st =
           (case extract_tar_xz cd fs1 (src_dir @ [name]) dest_dir of
              (fs2, Inl e) \<Rightarrow> (say (ExtractError name e) (st\<lparr>files := fs2\<rparr>), Inr 1)
            | (fs2, Inr kind) \<Rightarrow>
                process_subdirs cd dest_dir
                  (say (if kind = ''tarxz'' then ExtractedTarXz name dest_dir
                        else DecompressedRawXz name dest_dir) (st\<lparr>files := fs2\<rparr>)))"
  using assms
  by (simp add: process_def process_top_level_def top_extract_def
      name_of_snoc Let_def split: prod.splits sum.splits)

lemma ex_top_mkdir:
  "mkdir_p [([''data''], Dir), ([''data'', ''top.tar.xz''], File [1]),
            ([''data'', ''checksums''], Dir),
            ([''data'', ''checksums'', ''top.tar.xz.sha256''], File (replicate 64 0x30))] [''data'']
   = Inr [([''data''], Dir), ([''data'', ''top.tar.xz''], File [1]),
          ([''data'', ''checksums''], Dir),
          ([''data'', ''checksums'', ''top.tar.xz.sha256''], File (replicate 64 0x30))]"
  by (simp add: mkdir_p_def node_at_def)

lemma ex_top_extract:
  "extract_tar_xz (table_codec [([1], [Member ''readme.txt'' (Regular [7])])] [])
     [([''data''], Dir), ([''data'', ''top.tar.xz''], File [1]),
      ([''data'', ''checksums''], Dir),
      ([''data'', ''checksums'', ''top.tar.xz.sha256''], File (replicate 64 0x30))]
     [''data'', ''top.tar.xz''] [''data'']
   = ([([''data'', ''readme.txt''], File [7]), ([''data'', ''readme.txt''], File []),
       ([''data''], Dir), ([''data'', ''top.tar.xz''], File [1]),
       ([''data'', ''checksums''], Dir),
       ([''data'', ''checksums'', ''top.tar.xz.sha256''], File (replicate 64 0x30))],
      Inr ''tarxz'')"
  by code_simp

lemma process_subdirs_none:
  "\<not> is_dir (files st) (dest_dir @ [''attack_data'']) \<Longrightarrow>
   \<not> is_dir (files st) (dest_dir @ [''benign_data'']) \<Longrightarrow>
   process_subdirs cd dest_dir st = (st, Inr 0)"
  by (simp add: process_subdirs_def)

theorem process_skips_top_level_verification_witness:
  "mkdir_p [([''data''], Dir), ([''data'', ''top.tar.xz''], File [1]),
            ([''data'', ''checksums''], Dir),
            ([''data'', ''checksums'', ''top.tar.xz.sha256''], File (replicate 64 0x30))] [''data'']
     = Inr [([''data''], Dir), ([''data'', ''top.tar.xz''], File [1]),
            ([''data'', ''checksums''], Dir),
            ([''data'', ''checksums'', ''top.tar.xz.sha256''], File (replicate 64 0x30))]
   \<and> exists_path [([''data''], Dir), ([''data'', ''top.tar.xz''], File [1]),
            ([''data'', ''checksums''], Dir),
            ([''data'', ''checksums'', ''top.tar.xz.sha256''], File (replicate 64 0x30))]
         ([''data''] @ [''top.tar.xz''])
   \<and> process (table_codec [([1], [Member ''readme.txt'' (Regular [7])])] [])
        [''data''] [''data''] ''top.tar.xz''
        \<lparr>files = [([''data''], Dir), ([''data'', ''top.tar.xz''], File [1]),
                  ([''data'', ''checksums''], Dir),
                  ([''data'', ''checksums'', ''top.tar.xz.sha256''], File (replicate 64 0x30))],
         log = []\<rparr>
     = (\<lparr>files = [([''data'', ''readme.txt''], File [7]), ([''data'', ''readme.txt''], File []),
                   ([''data''], Dir), ([''data'', ''top.tar.xz''], File [1]),
                   ([''data'', ''checksums''], Dir),
                   ([''data'', ''checksums'', ''top.tar.xz.sha256''], File (replicate 64 0x30))],
          log = [ExtractedTarXz ''top.tar.xz'' [''data'']]\<rparr>, Inr 0)"
proof -
  let ?fs = "[([''data''], Dir), ([''data'', ''top.tar.xz''], File [1]),
            ([''data'', ''checksums''], Dir),
            ([''data'', ''checksums'', ''top.tar.xz.sha256''], File (replicate 64 0x30))]"
  let ?st = "\<lparr>files = ?fs, log = []\<rparr>"
  have mk: "mkdir_p (files ?st) [''data''] = Inr ?fs"
    using ex_top_mkdir by simp
  have ex: "exists_path ?fs ([''data''] @ [''top.tar.xz''])"
    by (simp add: exists_path_def node_at_def)
  have sub: "process_subdirs (table_codec [([1], [Member ''readme.txt'' (Regular [7])])] []) [''data'']
      \<lparr>files = [([''data'', ''readme.txt''], File [7]), ([''data'', ''readme.txt''], File []),
                   ([''data''], Dir), ([''data'', ''top.tar.xz''], File [1]),
                   ([''data'', ''checksums''], Dir),
                   ([''data'', ''checksums'', ''top.tar.xz.sha256''], File (replicate 64 0x30))],
          log = [ExtractedTarXz ''top.tar.xz'' [''data'']]\<rparr>
     = (\<lparr>files = [([''data'', ''readme.txt''], File [7]), ([''data'', ''readme.txt''], File []),
                   ([''data''], Dir), ([''data'', ''top.tar.xz''], File [1]),
                   ([''data'', ''checksums''], Dir),
                   ([''data'', ''checksums'', ''top.tar.xz.sha256''], File (replicate 64 0x30))],
          log = [ExtractedTarXz ''top.tar.xz'' [''data'']]\<rparr>, Inr 0)"
    by (rule process_subdirs_none) (simp_all add: is_dir_def node_at_def)
  show ?thesis
    using process_skips_top_level_verification [OF mk ex,
        of "table_codec [([1], [Member ''readme.txt'' (Regular [7])])] []"]
      ex_top_mkdir ex
    by (simp add: ex_top_extract [simplified] say_def sub [simplified])
qed


lemma char_of_zero: "char_of (unat (0x30 :: byte)) = CHR ''0''"
  by code_simp

lemma first_token_plain_run: "\<not> isspace c \<Longrightarrow> first_token (replicate n c) = replicate n c"
  by (cases n) (simp_all add: first_token_def takeWhile_eq_all_conv)

lemma read_expected_zeros:
  assumes "node_at fs p = Some (File (replicate 64 0x30))"
  shows "read_expected_sha256 (table_codec tars raws) fs p = Some (replicate 64 (CHR ''0''))"
proof -
  have op: "open_rb fs p = Inr (replicate 64 0x30)"
    using assms by (simp add: open_rb_def)
  have "decode_text (table_codec tars raws) = latin1"
    by (simp add: table_codec_def)
  then have dec: "decode_text (table_codec tars raws) (replicate 64 0x30) = replicate 64 (CHR ''0'')"
    by (simp only: latin1_replicate char_of_zero)
  have "\<not> isspace (CHR ''0'')"
    by (simp add: isspace_def)
  then have tok: "first_token (replicate 64 (CHR ''0'')) = replicate 64 (CHR ''0'')"
    by (rule first_token_plain_run)
  have "is_hex_char (CHR ''0'')"
    by (simp add: is_hex_char_def lower_char_def)
  then have flt: "filter is_hex_char (replicate 64 (CHR ''0'')) = replicate 64 (CHR ''0'')"
    by simp
  show ?thesis
    unfolding read_expected_sha256_def
    by (simp only: read_expected_body_text [OF op] dec tok flt length_replicate) simp
qed

section \<open>An exception that escapes process_subdir\<close>

lemma ex_glob_attack:
  "glob_tar_xz
     [([''d'', ''attack_data'', ''checksums'', ''b.tar.xz.sha256''], File (replicate 64 0x30)),
      ([''d'', ''attack_data'', ''checksums'', ''a.tar.xz.sha256''], File (replicate 64 0x30)),
      ([''d'', ''attack_data'', ''checksums''], Dir),
      ([''d'', ''attack_data'', ''b.tar.xz''], File [1]),
      ([''d'', ''attack_data'', ''a.tar.xz''], Dir),
      ([''d'', ''attack_data''], Dir), ([''d''], Dir)] [''d'', ''attack_data'']
   = [[''d'', ''attack_data'', ''a.tar.xz''], [''d'', ''attack_data'', ''b.tar.xz'']]"
  by code_simp

text \<open>
  C2, at an input where the code departs from it. The checksum branch of
  \<open>process_subdir\<close> meets a directory entry named \<open>a.tar.xz\<close> that has a well-formed
  checksum file: \<open>sha256_file\<close> raises outside any \<open>try\<close>, the exception leaves
  \<open>process_subdir\<close>, and the archive \<open>b.tar.xz\<close> after it is never looked at (nothing
  is printed, nothing is extracted).
\<close>

theorem process_subdir_hash_error_escapes:
  "process_subdir (table_codec [([1], [Member ''x.txt'' (Regular [7])])] [])
     [''d'', ''attack_data''] [''d'', ''attack_data''] [''d'', ''extracted_attack_data'']
     \<lparr>files =
        [([''d'', ''attack_data'', ''checksums'', ''b.tar.xz.sha256''], File (replicate 64 0x30)),
         ([''d'', ''attack_data'', ''checksums'', ''a.tar.xz.sha256''], File (replicate 64 0x30)),
         ([''d'', ''attack_data'', ''checksums''], Dir),
         ([''d'', ''attack_data'', ''b.tar.xz''], File [1]),
         ([''d'', ''attack_data'', ''a.tar.xz''], Dir),
         ([''d'', ''attack_data''], Dir), ([''d''], Dir)],
      log = []\<rparr>
   = (\<lparr>files =
        [([''d'', ''attack_data'', ''checksums'', ''b.tar.xz.sha256''], File (replicate 64 0x30)),
         ([''d'', ''attack_data'', ''checksums'', ''a.tar.xz.sha256''], File (replicate 64 0x30)),
         ([''d'', ''attack_data'', ''checksums''], Dir),
         ([''d'', ''attack_data'', ''b.tar.xz''], File [1]),
         ([''d'', ''attack_data'', ''a.tar.xz''], Dir),
         ([''d'', ''attack_data''], Dir), ([''d''], Dir)],
      log = []\<rparr>, Inl IsADirectoryError)"
proof -
  let ?fs = "[([''d'', ''attack_data'', ''checksums'', ''b.tar.xz.sha256''], File (replicate 64 0x30)),
         ([''d'', ''attack_data'', ''checksums'', ''a.tar.xz.sha256''], File (replicate 64 0x30)),
         ([''d'', ''attack_data'', ''checksums''], Dir),
         ([''d'', ''attack_data'', ''b.tar.xz''], File [1]),
         ([''d'', ''attack_data'', ''a.tar.xz''], Dir),
         ([''d'', ''attack_data''], Dir), ([''d''], Dir)]"
  let ?cd = "table_codec [([1], [Member ''x.txt'' (Regular [7])])] []"
  let ?st = "\<lparr>files = ?fs, log = []\<rparr>"
  have cs: "is_dir ?fs [''d'', ''attack_data'', ''checksums'']"
    by (simp add: is_dir_def node_at_def)
  have ex: "exists_path ?fs [''d'', ''attack_data'', ''checksums'', ''a.tar.xz.sha256'']"
    by (simp add: exists_path_def node_at_def)
  have "node_at ?fs [''d'', ''attack_data'', ''checksums'', ''a.tar.xz.sha256'']
          = Some (File (replicate 64 0x30))"
    by (simp add: node_at_def)
  then have re: "read_expected_sha256 ?cd ?fs [''d'', ''attack_data'', ''checksums'', ''a.tar.xz.sha256'']
          = Some (replicate 64 (CHR ''0''))"
    by (rule read_expected_zeros)
  have sha: "sha256_file ?fs [''d'', ''attack_data'', ''a.tar.xz''] 1048576 = Inl IsADirectoryError"
    by (simp add: sha256_file_def open_rb_def node_at_def)
  have step: "subdir_step ?cd True [''d'', ''attack_data'', ''checksums'']
        [''d'', ''extracted_attack_data''] [''d'', ''attack_data'', ''a.tar.xz''] ?st
      = (?st, Inl IsADirectoryError)"
    using ex re sha by (simp add: subdir_step_def name_of_def falsy_def Let_def)
  show ?thesis
    using cs ex_glob_attack step
    by (simp add: process_subdir_def Let_def)
qed

text \<open>
  The branch without a checksum directory catches the same error: the directory entry
  is reported and skipped, and \<open>b.tar.xz\<close> is extracted.
\<close>

lemma process_subdir_unchecked_sibling:
  "process_subdir (table_codec [([1], [Member ''x.txt'' (Regular [7])])] [])
     [''d'', ''attack_data''] [''d'', ''attack_data''] [''d'', ''extracted_attack_data'']
     \<lparr>files =
        [([''d'', ''attack_data'', ''b.tar.xz''], File [1]),
         ([''d'', ''attack_data'', ''a.tar.xz''], Dir),
         ([''d'', ''attack_data''], Dir), ([''d''], Dir)],
      log = []\<rparr>
   = (\<lparr>files =
        [([''d'', ''extracted_attack_data'', ''x.txt''], File [7]),
         ([''d'', ''extracted_attack_data'', ''x.txt''], File []),
         ([''d'', ''extracted_attack_data''], Dir),
         ([''d'', ''attack_data'', ''b.tar.xz''], File [1]),
         ([''d'', ''attack_data'', ''a.tar.xz''], Dir),
         ([''d'', ''attack_data''], Dir), ([''d''], Dir)],
      log =
        [NoChecksumDir [''d'', ''attack_data''],
         ExtractError ''a.tar.xz'' IsADirectoryError,
         ExtractedTo ''b.tar.xz'' [''d'', ''extracted_attack_data''],
         DoneProcessing ''attack_data'' 1 2]\<rparr>, Inr 1)"
  by code_simp

section \<open>The exit status at that input\<close>

lemma ex_main_extract:
  "extract_tar_xz (table_codec [([1], [Member ''attack_data/a.tar.xz'' Directory,
           Member ''attack_data/checksums/a.tar.xz.sha256'' (Regular (replicate 64 0x30))])] [])
     [([''data'', ''all_attack_benign_samples.tar.xz''], File [1]), ([''data''], Dir)]
     [''data'', ''all_attack_benign_samples.tar.xz''] [''data'']
   = ([([''data'', ''attack_data'', ''checksums'', ''a.tar.xz.sha256''], File (replicate 64 0x30)),
       ([''data'', ''attack_data'', ''checksums'', ''a.tar.xz.sha256''], File []),
       ([''data'', ''attack_data'', ''checksums''], Dir),
       ([''data'', ''attack_data'', ''a.tar.xz''], Dir),
       ([''data'', ''attack_data''], Dir),
       ([''data'', ''all_attack_benign_samples.tar.xz''], File [1]),
       ([''data''], Dir)], Inr ''tarxz'')"
  by code_simp

lemma ex_main_glob:
  "glob_tar_xz
     [([''data'', ''attack_data'', ''checksums'', ''a.tar.xz.sha256''], File (replicate 64 0x30)),
       ([''data'', ''attack_data'', ''checksums'', ''a.tar.xz.sha256''], File []),
       ([''data'', ''attack_data'', ''checksums''], Dir),
       ([''data'', ''attack_data'', ''a.tar.xz''], Dir),
       ([''data'', ''attack_data''], Dir),
       ([''data'', ''all_attack_benign_samples.tar.xz''], File [1]),
       ([''data''], Dir)] [''data'', ''attack_data'']
   = [[''data'', ''attack_data'', ''a.tar.xz'']]"
  by code_simp

text \<open>
  C3, at an input where the code departs from it. The whole program runs on a source
  directory whose top-level archive is sound and holds the directory
  \<open>attack_data/a.tar.xz\<close> with a well-formed checksum file: the top-level archive is
  extracted, then the exception of \<open>sha256_file\<close> on the nested entry leaves
  \<open>process_subdir\<close>, \<open>process\<close> and \<open>main\<close>, and the exit status is 1.
\<close>

theorem main_nested_entry_changes_exit_status:
  "exit_status (snd (main
      (table_codec [([1], [Member ''attack_data/a.tar.xz'' Directory,
           Member ''attack_data/checksums/a.tar.xz.sha256'' (Regular (replicate 64 0x30))])] [])
      [''data''] None
      \<lparr>files = [([''data'', ''all_attack_benign_samples.tar.xz''], File [1]), ([''data''], Dir)],
       log = []\<rparr>)) = 1
   \<and> log (fst (main
      (table_codec [([1], [Member ''attack_data/a.tar.xz'' Directory,
           Member ''attack_data/checksums/a.tar.xz.sha256'' (Regular (replicate 64 0x30))])] [])
      [''data''] None
      \<lparr>files = [([''data'', ''all_attack_benign_samples.tar.xz''], File [1]), ([''data''], Dir)],
       log = []\<rparr>)) = [ExtractedTarXz ''all_attack_benign_samples.tar.xz'' [''data'']]"
proof -
  let ?cd = "table_codec [([1], [Member ''attack_data/a.tar.xz'' Directory,
           Member ''attack_data/checksums/a.tar.xz.sha256'' (Regular (replicate 64 0x30))])] []"
  let ?fs0 = "[([''data'', ''all_attack_benign_samples.tar.xz''], File [1]), ([''data''], Dir)]"
  let ?fs2 = "[([''data'', ''attack_data'', ''checksums'', ''a.tar.xz.sha256''], File (replicate 64 0x30)),
       ([''data'', ''attack_data'', ''checksums'', ''a.tar.xz.sha256''], File []),
       ([''data'', ''attack_data'', ''checksums''], Dir),
       ([''data'', ''attack_data'', ''a.tar.xz''], Dir),
       ([''data'', ''attack_data''], Dir),
       ([''data'', ''all_attack_benign_samples.tar.xz''], File [1]),
       ([''data''], Dir)]"
  let ?st0 = "\<lparr>files = ?fs0, log = []\<rparr>"
  let ?st2 = "\<lparr>files = ?fs2, log = [ExtractedTarXz ''all_attack_benign_samples.tar.xz'' [''data'']]\<rparr>"
  have src: "is_dir ?fs0 [''data'']"
    by (simp add: is_dir_def node_at_def)
  have mk: "mkdir_p ?fs0 [''data''] = Inr ?fs0"
    by (simp add: mkdir_p_def node_at_def)
  have top: "exists_path ?fs0 [''data'', ''all_attack_benign_samples.tar.xz'']"
    by (simp add: exists_path_def node_at_def)
  have tl: "process_top_level ?cd [''data'', ''all_attack_benign_samples.tar.xz''] [''data''] None ?st0
      = (?st2, Inr 1)"
    by (simp add: process_top_level_def top_extract_def ex_main_extract [simplified]
        name_of_def say_def Let_def)
  have cs: "is_dir ?fs2 [''data'', ''attack_data'', ''checksums'']"
    by (simp add: is_dir_def node_at_def)
  have ad: "is_dir ?fs2 [''data'', ''attack_data'']"
    by (simp add: is_dir_def node_at_def)
  have ex: "exists_path ?fs2 [''data'', ''attack_data'', ''checksums'', ''a.tar.xz.sha256'']"
    by (simp add: exists_path_def node_at_def)
  have "node_at ?fs2 [''data'', ''attack_data'', ''checksums'', ''a.tar.xz.sha256'']
          = Some (File (replicate 64 0x30))"
    by (simp add: node_at_def)
  then have re: "read_expected_sha256 ?cd ?fs2
        [''data'', ''attack_data'', ''checksums'', ''a.tar.xz.sha256'']
          = Some (replicate 64 (CHR ''0''))"
    by (rule read_expected_zeros)
  have sha: "sha256_file ?fs2 [''data'', ''attack_data'', ''a.tar.xz''] 1048576
      = Inl IsADirectoryError"
    by (simp add: sha256_file_def open_rb_def node_at_def)
  have step: "subdir_step ?cd True [''data'', ''attack_data'', ''checksums'']
        [''data'', ''extracted_attack_data''] [''data'', ''attack_data'', ''a.tar.xz''] ?st2
      = (?st2, Inl IsADirectoryError)"
    using ex re sha by (simp add: subdir_step_def name_of_def falsy_def Let_def)
  have sub: "process_subdir ?cd [''data'', ''attack_data''] [''data'', ''attack_data'']
        [''data'', ''extracted_attack_data''] ?st2 = (?st2, Inl IsADirectoryError)"
    using cs ex_main_glob step by (simp add: process_subdir_def Let_def)
  have subs: "process_subdirs ?cd [''data''] ?st2 = (?st2, Inl IsADirectoryError)"
    using ad sub by (simp add: process_subdirs_def Let_def)
  have "process ?cd [''data''] [''data''] default_top_level_archive_name ?st0
      = (?st2, Inl IsADirectoryError)"
    using mk top tl subs
    by (simp add: process_def default_top_level_archive_name_def Let_def)
  then have "main ?cd [''data''] None ?st0 = (?st2, Inl IsADirectoryError)"
    using src mk by (simp add: main_def Let_def)
  then show ?thesis
    by (simp add: exit_status_def)
qed

section \<open>What holds of the exit codes and of the per-archive loop\<close>

text \<open>
  The exit paths of \<open>main\<close> and \<open>process\<close> that the script writes out: an invalid source
  directory gives status 2 with nothing done, a missing top-level archive and a failed
  top-level step give 1, and a run that reaches the end gives 0. Any other status 1
  comes from an exception that nothing catches.
\<close>

lemma main_invalid_source:
  "\<not> is_dir (files st) src \<Longrightarrow> main cd src dest_arg st = (say (SrcNotADirectory src) st, Inr 2)"
  by (simp add: main_def)

lemma process_subdirs_result:
  "snd (process_subdirs cd dest_dir st) = Inr 0 \<or> (\<exists>e. snd (process_subdirs cd dest_dir st) = Inl e)"
  by (auto simp: process_subdirs_def Let_def split: prod.splits sum.splits option.splits if_splits)

lemma top_extract_result:
  "snd (top_extract cd a d st) = Inr 0 \<or> snd (top_extract cd a d st) = Inr 1"
  by (auto simp: top_extract_def Let_def split: prod.splits sum.splits)

lemma process_result:
  "snd (process cd src_dir dest_dir name st) = Inr 0
   \<or> snd (process cd src_dir dest_dir name st) = Inr 1
   \<or> (\<exists>e. snd (process cd src_dir dest_dir name st) = Inl e)"
proof (cases "mkdir_p (files st) dest_dir")
  case (Inl e)
  then show ?thesis
    by (simp add: process_def)
next
  case (Inr fs1)
  show ?thesis
  proof (cases "exists_path fs1 (src_dir @ [name])")
    case False
    with Inr show ?thesis
      by (simp add: process_def)
  next
    case True
    obtain fs2 r where ex: "extract_tar_xz cd fs1 (src_dir @ [name]) dest_dir = (fs2, r)"
      by (cases "extract_tar_xz cd fs1 (src_dir @ [name]) dest_dir")
    show ?thesis
    proof (cases r)
      case (Inl e)
      with Inr True ex show ?thesis
        by (simp add: process_def process_top_level_def top_extract_def
            Let_def)
    next
      case (Inr kind)
      with \<open>mkdir_p (files st) dest_dir = Inr fs1\<close> True ex
      have "process cd src_dir dest_dir name st =
          process_subdirs cd dest_dir
            (say (if kind = ''tarxz'' then ExtractedTarXz name dest_dir
                  else DecompressedRawXz name dest_dir) (st\<lparr>files := fs2\<rparr>))"
        by (simp add: process_def process_top_level_def top_extract_def
            Let_def name_of_snoc)
      then show ?thesis
        using process_subdirs_result by metis
    qed
  qed
qed

lemma main_exit_status_2_iff:
  "exit_status (snd (main cd src dest_arg st)) = 2 \<longleftrightarrow> \<not> is_dir (files st) src"
proof (cases "is_dir (files st) src")
  case False
  then show ?thesis
    by (simp add: main_invalid_source exit_status_def)
next
  case True
  let ?dest = "case dest_arg of Some d \<Rightarrow> d | None \<Rightarrow> src"
  show ?thesis
  proof (cases "mkdir_p (files st) ?dest")
    case (Inl e)
    with True show ?thesis
      by (simp add: main_def exit_status_def)
  next
    case (Inr fs1)
    with True have "main cd src dest_arg st =
        process cd src ?dest default_top_level_archive_name (st\<lparr>files := fs1\<rparr>)"
      by (simp add: main_def)
    with True process_result [of cd src ?dest default_top_level_archive_name "st\<lparr>files := fs1\<rparr>"]
    show ?thesis
      by (auto simp: exit_status_def)
  qed
qed

lemma process_missing_top_level:
  "mkdir_p (files st) dest_dir = Inr fs1 \<Longrightarrow> \<not> exists_path fs1 (src_dir @ [name]) \<Longrightarrow>
   process cd src_dir dest_dir name st
     = (say (TopLevelNotFound name src_dir) (st\<lparr>files := fs1\<rparr>), Inr 1)"
  by (simp add: process_def)

text \<open>
  In the loop of \<open>process_subdir\<close>, an iteration on an entry that is a regular file
  never raises: every failure is printed and skipped. With a checksum directory the
  entry reaches \<open>extract_tar_xz\<close> exactly when its checksum file exists, parses, and
  equals the file's SHA-256 up to case; without one it always does.
\<close>

lemma subdir_step_regular_file:
  assumes "node_at (files st) arc = Some (File bs)"
  shows "\<exists>st' inc. subdir_step cd has_checksums checksum_dir out_subdir arc st = (st', Inr inc)"
  using assms
  by (auto simp: subdir_step_def Let_def sha256_file_regular split: prod.splits sum.splits)

lemma subdir_step_skips:
  assumes "node_at (files st) arc = Some (File bs)"
    and "\<not> exists_path (files st) (checksum_dir @ [name_of arc @ ''.sha256''])
         \<or> falsy (read_expected_sha256 cd (files st) (checksum_dir @ [name_of arc @ ''.sha256'']))
         \<or> lower (sha256_hex bs)
             \<noteq> lower (the (read_expected_sha256 cd (files st)
                                (checksum_dir @ [name_of arc @ ''.sha256''])))"
  shows "\<exists>ev. subdir_step cd True checksum_dir out_subdir arc st = (say ev st, Inr False)"
  using assms
  by (auto simp: subdir_step_def Let_def sha256_file_regular)

lemma subdir_step_extracts:
  assumes "node_at (files st) arc = Some (File bs)"
    and "has_checksums \<longrightarrow>
           exists_path (files st) (checksum_dir @ [name_of arc @ ''.sha256''])
         \<and> \<not> falsy (read_expected_sha256 cd (files st) (checksum_dir @ [name_of arc @ ''.sha256'']))
         \<and> lower (sha256_hex bs)
             = lower (the (read_expected_sha256 cd (files st)
                                (checksum_dir @ [name_of arc @ ''.sha256''])))"
  shows "files (fst (subdir_step cd has_checksums checksum_dir out_subdir arc st))
           = fst (extract_tar_xz cd (files st) arc out_subdir)
       \<and> snd (subdir_step cd has_checksums checksum_dir out_subdir arc st)
           = Inr (\<exists>kind. snd (extract_tar_xz cd (files st) arc out_subdir) = Inr kind)"
  using assms
  by (auto simp: subdir_step_def Let_def sha256_file_regular say_def
      split: prod.splits sum.splits)

text \<open>
  Extraction never removes a regular file or replaces it by a directory, so a loop
  over entries that are all regular files runs to its end: \<open>process_subdir\<close> returns.
\<close>

lemma is_file_iff: "is_file fs p \<longleftrightarrow> (\<exists>b. node_at fs p = Some (File b))"
  by (auto simp: is_file_def split: option.splits node.splits)

lemma mkdir_p_keeps_file: "mkdir_p fs p = Inr fs' \<Longrightarrow> is_file fs q \<Longrightarrow> is_file fs' q"
  unfolding is_file_iff by (blast dest: mkdir_p_keeps)

lemma open_wb_keeps_file: "open_wb fs p = Inr fs' \<Longrightarrow> is_file fs q \<Longrightarrow> is_file fs' q"
  by (auto simp: open_wb_def is_file_def put_def node_at_def
      split: option.splits node.splits if_splits)

lemma append_file_keeps_file: "is_file fs q \<Longrightarrow> is_file (append_file fs p chunk) q"
  by (auto simp: append_file_def is_file_def put_def node_at_def
      split: option.splits node.splits if_splits)

lemma extract_member_keeps_file:
  "is_file fs q \<Longrightarrow> is_file (fst (extract_member fs dest m)) q"
  by (auto simp: extract_member_def Let_def
      intro: mkdir_p_keeps_file open_wb_keeps_file append_file_keeps_file
      split: member_kind.splits sum.splits)

lemma extractall_keeps_file:
  "is_file fs q \<Longrightarrow> is_file (fst (extractall fs dest ms)) q"
proof (induction ms arbitrary: fs)
  case Nil
  then show ?case by simp
next
  case (Cons m ms)
  obtain fs' r where em: "extract_member fs dest m = (fs', r)"
    by (cases "extract_member fs dest m")
  with Cons.prems have d: "is_file fs' q"
    using extract_member_keeps_file [of fs q dest m] by simp
  show ?case
  proof (cases r)
    case None
    with em Cons.IH [OF d] show ?thesis by simp
  next
    case (Some e)
    with em d show ?thesis by simp
  qed
qed

lemma copy_loop_keeps_file:
  "is_file fs q \<Longrightarrow> is_file (fst (copy_loop corrupt rest fs raw_out)) q"
proof (induction corrupt rest fs raw_out rule: copy_loop.induct)
  case (1 corrupt rest fs raw_out)
  show ?case
  proof (cases "file_read (1024 * 1024) rest")
    case (Inl e)
    with "1.prems" show ?thesis
      by (subst copy_loop.simps) simp
  next
    case (Inr pr)
    obtain chunk rest' where pr: "pr = (chunk, rest')"
      by (cases pr)
    show ?thesis
    proof (cases "chunk = []")
      case True
      with Inr pr "1.prems" show ?thesis
        by (subst copy_loop.simps) simp
    next
      case False
      have "is_file (append_file fs raw_out chunk) q"
        using "1.prems" by (rule append_file_keeps_file)
      then have "is_file (fst (copy_loop corrupt rest' (append_file fs raw_out chunk) raw_out)) q"
        using "1.IH" [OF Inr [unfolded pr] refl False] by simp
      with Inr pr False show ?thesis
        by (subst copy_loop.simps) simp
    qed
  qed
qed

lemma tar_attempt_keeps_file:
  "is_file fs q \<Longrightarrow> is_file (fst (tar_attempt cd fs a d)) q"
proof -
  assume q: "is_file fs q"
  have "\<And>ms. is_file (fst (extractall fs d ms)) q"
    using q by (rule extractall_keeps_file)
  then show ?thesis
    using q
    by (auto simp: tar_attempt_def split: sum.splits tar_result.splits option.splits prod.splits)
       (metis fst_conv)+
qed

lemma raw_attempt_keeps_file:
  "is_file fs q \<Longrightarrow> is_file (fst (raw_attempt cd fs a d)) q"
proof -
  assume q: "is_file fs q"
  have "\<And>fs1 c rest out. is_file fs1 q \<Longrightarrow> is_file (fst (copy_loop c rest fs1 out)) q"
    by (rule copy_loop_keeps_file)
  then have cl: "\<And>fs1 c rest out fs2 r. is_file fs1 q \<Longrightarrow> copy_loop c rest fs1 out = (fs2, r) \<Longrightarrow> is_file fs2 q"
    by (metis fst_conv)
  show ?thesis
    using q
    by (auto simp: raw_attempt_def Let_def
        split: sum.splits xz_result.splits option.splits prod.splits
        dest: open_wb_keeps_file cl)
qed

lemma extract_tar_xz_keeps_file:
  assumes q: "is_file fs q"
  shows "is_file (fst (extract_tar_xz cd fs a d)) q"
proof (cases "mkdir_p fs d")
  case (Inl e)
  with q show ?thesis
    by (simp add: extract_tar_xz_def)
next
  case (Inr fs1)
  then have q1: "is_file fs1 q"
    using q by (rule mkdir_p_keeps_file)
  obtain fs2 r where ta: "tar_attempt cd fs1 a d = (fs2, r)"
    by (cases "tar_attempt cd fs1 a d")
  have q2: "is_file fs2 q"
    using tar_attempt_keeps_file [OF q1, of cd a d] ta by simp
  show ?thesis
  proof (cases r)
    case (Inr kind)
    with \<open>mkdir_p fs d = Inr fs1\<close> ta q2 show ?thesis
      by (simp add: extract_tar_xz_def)
  next
    case (Inl e)
    show ?thesis
    proof (cases "e = TarReadError")
      case True
      with \<open>mkdir_p fs d = Inr fs1\<close> ta Inl raw_attempt_keeps_file [OF q2, of cd a d]
      show ?thesis
        by (simp add: extract_tar_xz_def)
    next
      case False
      with \<open>mkdir_p fs d = Inr fs1\<close> ta Inl q2 show ?thesis
        by (simp add: extract_tar_xz_def)
    qed
  qed
qed

lemma subdir_step_keeps_file:
  assumes "is_file (files st) q"
  shows "is_file (files (fst (subdir_step cd has_checksums checksum_dir out_subdir arc st))) q"
proof -
  have "is_file (fst (extract_tar_xz cd (files st) arc out_subdir)) q"
    using assms by (rule extract_tar_xz_keeps_file)
  then have "\<And>fs' r. extract_tar_xz cd (files st) arc out_subdir = (fs', r) \<Longrightarrow> is_file fs' q"
    by simp
  with assms show ?thesis
    by (auto simp: subdir_step_def Let_def say_def split: prod.splits sum.splits)
qed

lemma subdir_loop_regular_files:
  "\<forall>a \<in> set archives. is_file (files st) a \<Longrightarrow>
   \<exists>st' ok'. subdir_loop cd has_checksums checksum_dir out_subdir archives total_n ok st
               = (st', Inr (total_n + length archives, ok'))"
proof (induction archives arbitrary: st total_n ok)
  case Nil
  then show ?case by simp
next
  case (Cons arc archives)
  from Cons.prems obtain bs where "node_at (files st) arc = Some (File bs)"
    by (auto simp: is_file_iff)
  then obtain st1 inc where
    step: "subdir_step cd has_checksums checksum_dir out_subdir arc st = (st1, Inr inc)"
    using subdir_step_regular_file by blast
  have "\<forall>a \<in> set archives. is_file (files st1) a"
    using Cons.prems subdir_step_keeps_file [of st _ cd has_checksums checksum_dir out_subdir arc]
      step by auto
  from Cons.IH [OF this, of "total_n + 1" "if inc then ok + 1 else ok"]
  show ?case
    using step by auto
qed

lemma process_subdir_regular_files:
  assumes "\<forall>a \<in> set (glob_tar_xz (files st) src_dir). is_file (files st) a"
  shows "\<exists>st' n. process_subdir cd src_dir dest_dir extracted_dest_dir st = (st', Inr n)"
proof -
  let ?st1 = "if \<not> is_dir (files st) (src_dir @ [''checksums''])
              then say (NoChecksumDir src_dir) st else st"
  have f: "files ?st1 = files st"
    by (simp add: say_def)
  with assms have "\<forall>a \<in> set (glob_tar_xz (files ?st1) src_dir). is_file (files ?st1) a"
    by simp
  from subdir_loop_regular_files [OF this]
  obtain st' ok' where "subdir_loop cd (is_dir (files st) (src_dir @ [''checksums'']))
      (src_dir @ [''checksums'']) extracted_dest_dir (glob_tar_xz (files ?st1) src_dir) 0 0 ?st1
      = (st', Inr (0 + length (glob_tar_xz (files ?st1) src_dir), ok'))"
    by blast
  then show ?thesis
    by (auto simp: process_subdir_def Let_def)
qed

section \<open>A test vector and the top-level checksum outcomes at concrete inputs\<close>








end
